theory Spec2Isabelle
  imports Main "HOL-Library.Word"
begin

chapter \<open>Definitions: the embedded code\<close>

section \<open>Machine types (types.h)\<close>

text \<open>
  The fixed-size integer aliases of \<^verbatim>\<open>types.h\<close> are words of the stated width. A signed
  type and the unsigned type of the same width share their representation; \<open>sint\<close>
  reads a word as two's complement and \<open>uint\<close>/\<open>unat\<close> read it as unsigned. The C++ type
  \<^verbatim>\<open>unsigned\<close> is a 32-bit word, so that \<open>+\<close> and \<open>*\<close> wrap around as unsigned
  arithmetic does. A pointer is a 64-bit address and \<open>0\<close> is the null pointer.
\<close>

type_synonym u16 = "16 word"
type_synonym u32 = "32 word"
type_synonym u64 = "64 word"
type_synonym s64 = "64 word"
type_synonym unsigned = "32 word"
type_synonym ptr = "64 word"

text \<open>
  Undefined behaviour that the embedded functions can reach is a value: reading a field
  through a null pointer, and an integer division by zero.
\<close>

datatype error = NullDeref | DivideByZero

section \<open>ConfigBus combined register addresses (cfgbus_core.h)\<close>

definition DEVS_PER_CFGBUS :: unsigned where
  "DEVS_PER_CFGBUS = 256"

definition REGS_PER_DEVICE :: unsigned where
  "REGS_PER_DEVICE = 1024"

definition MAX_DEVICES :: unsigned where
  "MAX_DEVICES = 256"

definition MAX_TOTAL_REGS :: unsigned where
  "MAX_TOTAL_REGS = REGS_PER_DEVICE * MAX_DEVICES"

text \<open>\<^verbatim>\<open>ConfigBus::get_regaddr\<close>: convert device + register to combined address.\<close>

definition get_regaddr :: "unsigned \<Rightarrow> unsigned \<Rightarrow> unsigned" where
  "get_regaddr dev reg = REGS_PER_DEVICE * dev + reg"

section \<open>Intrusive singly-linked lists (list.h)\<close>

text \<open>
  The nodes of a list are objects with a field \<^verbatim>\<open>m_next\<close>. The store of that field is a
  function from the address of a node to the pointer held there. A function of
  \<^verbatim>\<open>ListCore\<close> that receives the head by reference (\<^verbatim>\<open>T*& list\<close>) takes the store and
  the head and returns both as it leaves them. A \<^verbatim>\<open>while\<close> loop that follows
  \<^verbatim>\<open>m_next\<close> pointers need not end, so each loop is a partial function: \<open>None\<close> is a
  loop that runs forever.
\<close>

type_synonym heap = "ptr \<Rightarrow> ptr"

text \<open>\<^verbatim>\<open>ListCore::contains\<close>: scan the list, looking for the item in question.\<close>

partial_function (option) contains_loop :: "heap \<Rightarrow> ptr \<Rightarrow> ptr \<Rightarrow> bool option" where
  "contains_loop h ptr item =
     (if ptr \<noteq> 0 then
        (if ptr = item then Some True
         else contains_loop h (h ptr) item)
      else Some False)"

definition contains :: "heap \<Rightarrow> ptr \<Rightarrow> ptr \<Rightarrow> bool option" where
  "contains h list item = contains_loop h list item"

text \<open>
  \<^verbatim>\<open>ListCore::find_ptr\<close> walks a pointer to a pointer (\<^verbatim>\<open>T**\<close>): the address of the
  head variable at first, then the address of the \<^verbatim>\<open>m_next\<close> field of a node. It returns
  the link that points to the item, or a null \<^verbatim>\<open>T**\<close> (\<open>None\<close>) at the end of the list.
\<close>

datatype link = ListVar | NextOf ptr

fun load :: "heap \<Rightarrow> ptr \<Rightarrow> link \<Rightarrow> ptr" where
  "load h list ListVar = list"
| "load h list (NextOf n) = h n"

fun store :: "heap \<Rightarrow> ptr \<Rightarrow> link \<Rightarrow> ptr \<Rightarrow> ptr \<times> heap" where
  "store h list ListVar v = (v, h)"
| "store h list (NextOf n) v = (list, h(n := v))"

partial_function (option) find_ptr_loop ::
  "heap \<Rightarrow> ptr \<Rightarrow> link \<Rightarrow> ptr \<Rightarrow> link option option" where
  "find_ptr_loop h list ptr item =
     (if load h list ptr = item then Some (Some ptr)
      else if load h list ptr = 0 then Some None
      else find_ptr_loop h list (NextOf (load h list ptr)) item)"

definition find_ptr :: "heap \<Rightarrow> ptr \<Rightarrow> ptr \<Rightarrow> link option option" where
  "find_ptr h list item = find_ptr_loop h list ListVar item"

text \<open>
  \<^verbatim>\<open>ListCore::has_loop\<close>: the two-pointer "tortoise and hare" algorithm. The loop reads
  \<^verbatim>\<open>slow->m_next\<close> without a test of \<^verbatim>\<open>slow\<close>; the model makes that read an error when
  \<^verbatim>\<open>slow\<close> is null.
\<close>

partial_function (option) has_loop_loop ::
  "heap \<Rightarrow> ptr \<Rightarrow> ptr \<Rightarrow> (error + bool) option" where
  "has_loop_loop h slow fast =
     (if fast \<noteq> 0 \<and> h fast \<noteq> 0 then
        (if slow = fast \<or> slow = h fast then Some (Inr True)
         else if slow = 0 then Some (Inl NullDeref)
         else has_loop_loop h (h slow) (h (h fast)))
      else Some (Inr False))"

definition has_loop :: "heap \<Rightarrow> ptr \<Rightarrow> (error + bool) option" where
  "has_loop h list =
     (if list = 0 then Some (Inr False)
      else has_loop_loop h list (h list))"

text \<open>\<^verbatim>\<open>ListCore::len\<close>: traverse the linked list to count its length.\<close>

partial_function (option) len_loop :: "heap \<Rightarrow> ptr \<Rightarrow> unsigned \<Rightarrow> unsigned option" where
  "len_loop h ptr count =
     (if ptr \<noteq> 0 then len_loop h (h ptr) (count + 1)
      else Some count)"

definition len :: "heap \<Rightarrow> ptr \<Rightarrow> unsigned option" where
  "len h list = len_loop h list 0"

text \<open>
  \<^verbatim>\<open>ListCore::push_front\<close>: add a new item at the head of the list. The result is the
  new head and the new store.
\<close>

definition push_front :: "heap \<Rightarrow> ptr \<Rightarrow> ptr \<Rightarrow> error + ptr \<times> heap" where
  "push_front h list item =
     (if item = 0 then Inl NullDeref
      else Inr (item, h(item := list)))"

text \<open>
  \<^verbatim>\<open>ListCore::remove\<close>: remove the designated item from the list. Both statements after
  the search read or write \<^verbatim>\<open>item->m_next\<close>, and the search for a null item ends at the
  last link, never at a null \<^verbatim>\<open>T**\<close>; so a null item is an error once the search has
  returned.
\<close>

definition remove :: "heap \<Rightarrow> ptr \<Rightarrow> ptr \<Rightarrow> (error + ptr \<times> heap) option" where
  "remove h list item =
     (case find_ptr h list item of
        None \<Rightarrow> None
      | Some ptr \<Rightarrow>
          if item = 0 then Some (Inl NullDeref)
          else
            (case (case ptr of None \<Rightarrow> (list, h) | Some p \<Rightarrow> store h list p (h item)) of
               (list', h') \<Rightarrow> Some (Inr (list', h'(item := 0)))))"

subsection \<open>What a list is\<close>

text \<open>
  \<open>is_list h p xs\<close>: from the pointer \<open>p\<close> the \<^verbatim>\<open>m_next\<close> fields lead through the nodes
  \<open>xs\<close>, in this order, to a null pointer.
\<close>

primrec is_list :: "heap \<Rightarrow> ptr \<Rightarrow> ptr list \<Rightarrow> bool" where
  "is_list h p [] \<longleftrightarrow> p = 0"
| "is_list h p (x # xs) \<longleftrightarrow> p = x \<and> x \<noteq> 0 \<and> is_list h (h x) xs"

text \<open>
  \<open>chain h p k\<close> is the pointer reached from \<open>p\<close> after \<open>k\<close> steps along \<^verbatim>\<open>m_next\<close>; the
  null pointer has no successor and the chain stays there. The chain revisits a node
  when a node occurs at two positions; it is null-terminated when some position holds
  the null pointer.
\<close>

definition follow :: "heap \<Rightarrow> ptr \<Rightarrow> ptr" where
  "follow h p = (if p = 0 then 0 else h p)"

definition chain :: "heap \<Rightarrow> ptr \<Rightarrow> nat \<Rightarrow> ptr" where
  "chain h p k = (follow h ^^ k) p"

definition revisits :: "heap \<Rightarrow> ptr \<Rightarrow> bool" where
  "revisits h p \<longleftrightarrow> (\<exists>i j. i < j \<and> chain h p i \<noteq> 0 \<and> chain h p i = chain h p j)"

definition null_terminated :: "heap \<Rightarrow> ptr \<Rightarrow> bool" where
  "null_terminated h p \<longleftrightarrow> (\<exists>k. chain h p k = 0)"

text \<open>
  A store for the examples: the nodes at the addresses 1 and 2 form the list \<open>[1, 2]\<close>;
  the node at 3 is on no list and its \<^verbatim>\<open>m_next\<close> is null; the node at 4 is on no list
  and its \<^verbatim>\<open>m_next\<close> points to the node at 2.
\<close>

definition example_heap :: heap where
  "example_heap = (\<lambda>_. 0)(1 := 2, 4 := 2)"

text \<open>
  A second store: from the node at 1 the \<^verbatim>\<open>m_next\<close> pointers lead to the node at 2,
  on to the node at 3 and back to the node at 2.
\<close>

definition example_cycle :: heap where
  "example_cycle = (\<lambda>_. 0)(1 := 2, 2 := 3, 3 := 2)"

section \<open>The PTP time value (ptp_time.h)\<close>

subsection \<open>Scaling factors\<close>

definition NSEC_PER_SEC :: s64 where
  "NSEC_PER_SEC = 1000000000"

definition NSEC_PER_MSEC :: s64 where
  "NSEC_PER_MSEC = 1000000"

definition NSEC_PER_USEC :: s64 where
  "NSEC_PER_USEC = 1000"

definition USEC_PER_SEC :: s64 where
  "USEC_PER_SEC = 1000000"

definition MSEC_PER_SEC :: s64 where
  "MSEC_PER_SEC = 1000"

definition SUBNS_PER_NSEC :: s64 where
  "SUBNS_PER_NSEC = 65536"

definition SUBNS_PER_USEC :: s64 where
  "SUBNS_PER_USEC = SUBNS_PER_NSEC * NSEC_PER_USEC"

definition SUBNS_PER_MSEC :: s64 where
  "SUBNS_PER_MSEC = SUBNS_PER_NSEC * NSEC_PER_MSEC"

definition SUBNS_PER_SEC :: s64 where
  "SUBNS_PER_SEC = SUBNS_PER_NSEC * NSEC_PER_SEC"

text \<open>The limits of a signed 64-bit integer (\<^verbatim>\<open>cstdint\<close>).\<close>

definition INT64_MAX :: s64 where
  "INT64_MAX = 9223372036854775807"

definition INT64_MIN :: s64 where
  "INT64_MIN = - 9223372036854775808"

subsection \<open>Integer helpers of \<^verbatim>\<open>satcat5::util\<close>\<close>

text \<open>
  Modelled from the spec: \<^verbatim>\<open>satcat5/utils.h\<close>, which declares \<^verbatim>\<open>util::divide\<close>, is not
  among the sources; \<open>divide_s64\<close> is \<^verbatim>\<open>util::divide\<close> at the type \<^verbatim>\<open>s64\<close>. The
  constructor \<^verbatim>\<open>Time(s64)\<close> stores \<^verbatim>\<open>divide(x, SUBNS_PER_SEC)\<close> as seconds, and the spec
  wants a negative total time to have seconds \<open>\<le> 0\<close> and a non-negative subns field:
  the quotient is rounded towards minus infinity. Every call below has a positive
  constant as divisor.
\<close>

definition divide_s64 :: "s64 \<Rightarrow> s64 \<Rightarrow> s64" where
  "divide_s64 a b = word_of_int (sint a div sint b)"

text \<open>
  Modelled from the spec: \<^verbatim>\<open>util::modulo\<close> of the missing \<^verbatim>\<open>satcat5/utils.h\<close>, at
  the type \<^verbatim>\<open>s64\<close>. The constructor \<^verbatim>\<open>Time(s64)\<close> stores \<^verbatim>\<open>modulo(x, SUBNS_PER_SEC)\<close>
  as subns, which the spec wants in \<open>[0, SUBNS_PER_SEC)\<close>, "the positive complement"
  for a negative argument: the remainder of the division rounded towards minus
  infinity.
\<close>

definition modulo_s64 :: "s64 \<Rightarrow> s64 \<Rightarrow> s64" where
  "modulo_s64 a b = word_of_int (sint a mod sint b)"

text \<open>
  Modelled from the spec: \<^verbatim>\<open>util::div_floor\<close> of the missing \<^verbatim>\<open>satcat5/utils.h\<close>; by its
  name and by the comment of \<^verbatim>\<open>field_nsec\<close> ("rounding down") the quotient rounded
  towards minus infinity.
\<close>

definition div_floor :: "s64 \<Rightarrow> s64 \<Rightarrow> s64" where
  "div_floor a b = word_of_int (sint a div sint b)"

subsection \<open>The class \<^verbatim>\<open>Time\<close>: fields, constructors and field extractors\<close>

record Time =
  m_secs :: s64
  m_subns :: s64

text \<open>The default constructor \<^verbatim>\<open>Time()\<close>.\<close>

definition Time_default :: Time where
  "Time_default = \<lparr>m_secs = 0, m_subns = 0\<rparr>"

text \<open>The single argument constructor \<^verbatim>\<open>Time(s64)\<close>, scaled in subnanoseconds.\<close>

definition Time_subns :: "s64 \<Rightarrow> Time" where
  "Time_subns subnanoseconds =
     \<lparr>m_secs = divide_s64 subnanoseconds SUBNS_PER_SEC,
      m_subns = modulo_s64 subnanoseconds SUBNS_PER_SEC\<rparr>"

text \<open>The copy constructor \<^verbatim>\<open>Time(const Time&)\<close>.\<close>

definition Time_copy :: "Time \<Rightarrow> Time" where
  "Time_copy other = \<lparr>m_secs = m_secs other, m_subns = m_subns other\<rparr>"

text \<open>\<^verbatim>\<open>field_secs\<close>, \<^verbatim>\<open>field_nsec\<close>, \<^verbatim>\<open>field_subns\<close> and \<^verbatim>\<open>correction\<close>.\<close>

definition field_secs :: "Time \<Rightarrow> s64" where
  "field_secs t = m_secs t"

definition field_nsec :: "Time \<Rightarrow> u32" where
  "field_nsec t = ucast (div_floor (m_subns t) SUBNS_PER_NSEC)"

definition field_subns :: "Time \<Rightarrow> u64" where
  "field_subns t = m_subns t"

definition correction :: "Time \<Rightarrow> u64" where
  "correction t = modulo_s64 (m_subns t) SUBNS_PER_NSEC"

subsection \<open>Canonical form and arithmetic (declared in ptp_time.h, defined elsewhere)\<close>

text \<open>
  Modelled from the spec: the body of \<^verbatim>\<open>Time::normalize\<close> (in \<^verbatim>\<open>ptp_time.cc\<close>, not among
  the sources), here \<open>normalize_time\<close>. The header declares it as "Reduce to canonical
  form" and gives \<^verbatim>\<open>m_subns\<close> the "range [0 .. SUBNS_PER_SEC)": whole seconds of the
  subns field are carried into the seconds field. The seconds field wraps around as a
  64-bit integer.
\<close>

definition normalize_time :: "Time \<Rightarrow> Time" where
  "normalize_time t =
     \<lparr>m_secs = m_secs t + divide_s64 (m_subns t) SUBNS_PER_SEC,
      m_subns = modulo_s64 (m_subns t) SUBNS_PER_SEC\<rparr>"

text \<open>
  Modelled from the spec: the body of the constructor \<^verbatim>\<open>Time(u64 seconds, u32 nanoseconds,
  u16 subnanoseconds)\<close> is missing. It "matches the format used for the PTP timestamp
  field": the seconds are kept, the nanoseconds are scaled to subnanoseconds, and the
  value is reduced to canonical form (\<^verbatim>\<open>u32\<close> nanoseconds can exceed one second).
\<close>

definition Time_fields :: "u64 \<Rightarrow> u32 \<Rightarrow> u16 \<Rightarrow> Time" where
  "Time_fields seconds nanoseconds subnanoseconds =
     normalize_time \<lparr>m_secs = seconds,
                m_subns = ucast nanoseconds * SUBNS_PER_NSEC + ucast subnanoseconds\<rparr>"

text \<open>
  Modelled from the spec: the body of \<^verbatim>\<open>Time::operator+=\<close> is missing. The spec: "add/sub
  (carry/borrow between secs and subns, re-canonicalize)".
\<close>

definition add_assign :: "Time \<Rightarrow> Time \<Rightarrow> Time" where
  "add_assign t other =
     normalize_time \<lparr>m_secs = m_secs t + m_secs other, m_subns = m_subns t + m_subns other\<rparr>"

text \<open>
  Modelled from the spec: the body of \<^verbatim>\<open>Time::operator-=\<close> is missing. The spec: "add/sub
  (carry/borrow between secs and subns, re-canonicalize)".
\<close>

definition sub_assign :: "Time \<Rightarrow> Time \<Rightarrow> Time" where
  "sub_assign t other =
     normalize_time \<lparr>m_secs = m_secs t - m_secs other, m_subns = m_subns t - m_subns other\<rparr>"

text \<open>
  Modelled from the spec: the body of the binary \<^verbatim>\<open>Time::operator+\<close> is missing; it is the
  addition of the spec applied to a copy of the left operand.
\<close>

definition Time_plus :: "Time \<Rightarrow> Time \<Rightarrow> Time" where
  "Time_plus t other = add_assign (Time_copy t) other"

text \<open>
  Modelled from the spec: the body of the binary \<^verbatim>\<open>Time::operator-\<close> is missing; it is the
  subtraction of the spec applied to a copy of the left operand.
\<close>

definition Time_minus :: "Time \<Rightarrow> Time \<Rightarrow> Time" where
  "Time_minus t other = sub_assign (Time_copy t) other"

text \<open>
  Modelled from the spec: the body of the unary \<^verbatim>\<open>Time::operator-\<close> is missing. The spec:
  "unary minus (negate both, re-canonicalize)".
\<close>

definition Time_neg :: "Time \<Rightarrow> Time" where
  "Time_neg t = normalize_time \<lparr>m_secs = - m_secs t, m_subns = - m_subns t\<rparr>"

text \<open>
  Modelled from the spec: the body of \<^verbatim>\<open>Time::operator*=\<close> is missing. The spec: "scalar
  multiply/divide (exact on seconds; subns path uses 128-bit intermediate)". The product
  of the subns field and the scale is below \<open>2 ^ 95\<close> in absolute value, so the 128-bit
  intermediate holds it exactly; it is an integer here. Its whole seconds are carried
  into the seconds field.
\<close>

definition mul_assign :: "Time \<Rightarrow> unsigned \<Rightarrow> Time" where
  "mul_assign t scale =
     (let wide = sint (m_subns t) * uint scale
      in \<lparr>m_secs = m_secs t * ucast scale + word_of_int (wide div sint SUBNS_PER_SEC),
          m_subns = word_of_int (wide mod sint SUBNS_PER_SEC)\<rparr>)"

text \<open>
  Modelled from the spec: the body of \<^verbatim>\<open>Time::operator/=\<close> is missing. The spec: "scalar
  multiply/divide (exact on seconds; subns path uses 128-bit intermediate)". The seconds
  are divided with remainder, the remainder is carried into the subns path, whose
  128-bit intermediate is an integer here, and the result is reduced to canonical
  form. A scale of zero is a division by zero.
\<close>

definition div_assign :: "Time \<Rightarrow> unsigned \<Rightarrow> error + Time" where
  "div_assign t scale =
     (if scale = 0 then Inl DivideByZero
      else
        (let quot = sint (m_secs t) div uint scale;
             rem = sint (m_secs t) mod uint scale;
             wide = rem * sint SUBNS_PER_SEC + sint (m_subns t)
         in Inr (normalize_time \<lparr>m_secs = word_of_int quot,
                             m_subns = word_of_int (wide div uint scale)\<rparr>)))"

text \<open>
  Modelled from the spec: the body of the binary \<^verbatim>\<open>Time::operator*\<close> is missing; it is the
  scalar multiplication of the spec applied to a copy of the left operand.
\<close>

definition Time_times :: "Time \<Rightarrow> unsigned \<Rightarrow> Time" where
  "Time_times t scale = mul_assign (Time_copy t) scale"

text \<open>
  Modelled from the spec: the body of the binary \<^verbatim>\<open>Time::operator/\<close> is missing; it is the
  scalar division of the spec applied to a copy of the left operand.
\<close>

definition Time_divide :: "Time \<Rightarrow> unsigned \<Rightarrow> error + Time" where
  "Time_divide t scale = div_assign (Time_copy t) scale"

text \<open>
  Modelled from the spec: the body of \<^verbatim>\<open>Time::operator==\<close> is missing. The spec:
  "comparisons (lexicographic on (secs, subns))", so two values are equal when both
  fields are.
\<close>

definition Time_eq :: "Time \<Rightarrow> Time \<Rightarrow> bool" where
  "Time_eq t other \<longleftrightarrow> m_secs t = m_secs other \<and> m_subns t = m_subns other"

text \<open>The constant \<^verbatim>\<open>ONE_DAY\<close> of the header.\<close>

definition ONE_DAY :: Time where
  "ONE_DAY = Time_subns (SUBNS_PER_SEC * 3600 * 24)"

subsection \<open>The canonical form and the values a program can build\<close>

text \<open>
  A value is canonical when its subns field, read as a signed integer, lies in
  \<open>[0, SUBNS_PER_SEC)\<close>. The time a value stands for is its total of subnanoseconds.
\<close>

definition canonical :: "Time \<Rightarrow> bool" where
  "canonical t \<longleftrightarrow> 0 \<le> sint (m_subns t) \<and> sint (m_subns t) < sint SUBNS_PER_SEC"

definition total_subns :: "Time \<Rightarrow> int" where
  "total_subns t = sint (m_secs t) * sint SUBNS_PER_SEC + sint (m_subns t)"

text \<open>
  The fields of a \<^verbatim>\<open>Time\<close> are protected, so a program holds only the values that the
  public constructors and the arithmetic operators return.
\<close>

inductive produced :: "Time \<Rightarrow> bool" where
  by_default: "produced Time_default"
| by_subns: "produced (Time_subns x)"
| by_fields: "produced (Time_fields s n r)"
| by_copy: "produced a \<Longrightarrow> produced (Time_copy a)"
| by_neg: "produced a \<Longrightarrow> produced (Time_neg a)"
| by_plus: "produced a \<Longrightarrow> produced b \<Longrightarrow> produced (Time_plus a b)"
| by_minus: "produced a \<Longrightarrow> produced b \<Longrightarrow> produced (Time_minus a b)"
| by_add_assign: "produced a \<Longrightarrow> produced b \<Longrightarrow> produced (add_assign a b)"
| by_sub_assign: "produced a \<Longrightarrow> produced b \<Longrightarrow> produced (sub_assign a b)"
| by_times: "produced a \<Longrightarrow> produced (Time_times a k)"
| by_mul_assign: "produced a \<Longrightarrow> produced (mul_assign a k)"
| by_divide: "produced a \<Longrightarrow> Time_divide a k = Inr t \<Longrightarrow> produced t"
| by_div_assign: "produced a \<Longrightarrow> div_assign a k = Inr t \<Longrightarrow> produced t"

subsection \<open>Conversion of time differences (declared in ptp_time.h, defined elsewhere)\<close>

text \<open>
  Modelled from the spec: the saturation shared by the four \<^verbatim>\<open>delta_*\<close> methods, whose
  bodies are in \<^verbatim>\<open>ptp_time.cc\<close>, not among the sources. The spec: an overflow of the
  conversion "saturates to the signed 64-bit extremum"; the header: "Times beyond the
  safe range will return INT64_MIN or INT64_MAX".
\<close>

definition saturate :: "int \<Rightarrow> s64" where
  "saturate v =
     (if sint INT64_MAX < v then INT64_MAX
      else if v < sint INT64_MIN then INT64_MIN
      else word_of_int v)"

text \<open>
  Modelled from the spec: the body of \<^verbatim>\<open>Time::delta_subns\<close> is missing. The spec:
  "\<^verbatim>\<open>delta_*()\<close> converts pure-difference Times to the requested unit with saturating
  overflow". The value in subnanoseconds is the total of the two fields.
\<close>

definition delta_subns :: "Time \<Rightarrow> s64" where
  "delta_subns t = saturate (total_subns t)"

text \<open>
  Modelled from the spec: the body of \<^verbatim>\<open>Time::delta_nsec\<close> is missing. The spec:
  "\<^verbatim>\<open>delta_*()\<close> converts pure-difference Times to the requested unit with saturating
  overflow". The value in nanoseconds is the total in whole nanoseconds, rounded down
  as \<^verbatim>\<open>field_nsec\<close> rounds.
\<close>

definition delta_nsec :: "Time \<Rightarrow> s64" where
  "delta_nsec t = saturate (total_subns t div sint SUBNS_PER_NSEC)"

text \<open>
  Modelled from the spec: the body of \<^verbatim>\<open>Time::delta_usec\<close> is missing. The spec:
  "\<^verbatim>\<open>delta_*()\<close> converts pure-difference Times to the requested unit with saturating
  overflow". The value in microseconds is the total in whole microseconds, rounded down.
\<close>

definition delta_usec :: "Time \<Rightarrow> s64" where
  "delta_usec t = saturate (total_subns t div sint SUBNS_PER_USEC)"

text \<open>
  Modelled from the spec: the body of \<^verbatim>\<open>Time::delta_msec\<close> is missing. The spec:
  "\<^verbatim>\<open>delta_*()\<close> converts pure-difference Times to the requested unit with saturating
  overflow". The value in milliseconds is the total in whole milliseconds, rounded down.
\<close>

definition delta_msec :: "Time \<Rightarrow> s64" where
  "delta_msec t = saturate (total_subns t div sint SUBNS_PER_MSEC)"

text \<open>
  What a saturating conversion to a unit of \<open>u\<close> subnanoseconds is. A value is in the
  safe range of the unit when its number of whole units fits a signed 64-bit integer.
  In the safe range the result \<open>r\<close> is the number of whole units in the value, exact
  when the value is a multiple of the unit; above the range it is \<^verbatim>\<open>INT64_MAX\<close>, below
  it \<^verbatim>\<open>INT64_MIN\<close>; and every value of at most one day in either direction is in the
  safe range.
\<close>

definition in_safe_range :: "int \<Rightarrow> Time \<Rightarrow> bool" where
  "in_safe_range u t \<longleftrightarrow>
     sint INT64_MIN \<le> total_subns t div u \<and> total_subns t div u \<le> sint INT64_MAX"

definition saturating_conversion :: "(Time \<Rightarrow> s64) \<Rightarrow> int \<Rightarrow> Time \<Rightarrow> bool" where
  "saturating_conversion f u t \<longleftrightarrow>
     (in_safe_range u t \<longrightarrow>
        sint (f t) * u \<le> total_subns t \<and> total_subns t < (sint (f t) + 1) * u \<and>
        (u dvd total_subns t \<longrightarrow> sint (f t) * u = total_subns t)) \<and>
     (sint INT64_MAX < total_subns t div u \<longrightarrow> f t = INT64_MAX) \<and>
     (total_subns t div u < sint INT64_MIN \<longrightarrow> f t = INT64_MIN) \<and>
     (\<bar>total_subns t\<bar> \<le> total_subns ONE_DAY \<longrightarrow> in_safe_range u t)"

section \<open>The PTP measurement\<close>

text \<open>
  Modelled from the spec: the \<^verbatim>\<open>Measurement\<close> structure is not among the sources. Of
  its components the two formulas read the four timestamps only: \<open>t1\<close> = master TX
  Sync, \<open>t2\<close> = slave RX Sync, \<open>t3\<close> = slave TX Delay-Req, \<open>t4\<close> = master RX Delay-Req.
\<close>

record Measurement =
  t1 :: Time
  t2 :: Time
  t3 :: Time
  t4 :: Time

text \<open>
  Modelled from the spec: the mean path delay of a measurement, whose code is not among
  the sources. The spec: "Mean path delay = ((t2-t1) + (t4-t3))/2", with the operators of
  \<^verbatim>\<open>Time\<close>.
\<close>

definition mean_path_delay :: "Measurement \<Rightarrow> error + Time" where
  "mean_path_delay m =
     Time_divide (Time_plus (Time_minus (t2 m) (t1 m)) (Time_minus (t4 m) (t3 m))) 2"

text \<open>
  Modelled from the spec: the offset from the master of a measurement, whose code is not
  among the sources. The spec: "offset-from-master = ((t2-t1) - (t4-t3))/2", with the
  operators of \<^verbatim>\<open>Time\<close>.
\<close>

definition offset_from_master :: "Measurement \<Rightarrow> error + Time" where
  "offset_from_master m =
     Time_divide (Time_minus (Time_minus (t2 m) (t1 m)) (Time_minus (t4 m) (t3 m))) 2"

section \<open>The simulated clock (ptp_simclock.cc)\<close>

text \<open>
  The members of \<^verbatim>\<open>SimulatedClock\<close> that the constructor initialises and the methods
  below touch. The two floating-point members (\<^verbatim>\<open>m_scale_nominal\<close>, \<^verbatim>\<open>m_rate_actual\<close>),
  which only \<^verbatim>\<open>run\<close> reads, are left out. The statistics object \<^verbatim>\<open>m_stats\<close> is of a
  class that is not among the sources: its type is a parameter, and so is its method
  \<^verbatim>\<open>add\<close>.
\<close>

record 'stats SimulatedClock =
  m_nco_rate :: s64
  m_nco_accum :: "128 word"
  m_count_coarse :: unsigned
  m_count_fine :: unsigned
  m_rtc :: Time
  m_offset :: s64
  m_stats :: 'stats

text \<open>\<^verbatim>\<open>SimulatedClock::clock_now\<close>.\<close>

definition clock_now :: "'stats SimulatedClock \<Rightarrow> Time" where
  "clock_now c = m_rtc c"

text \<open>
  \<^verbatim>\<open>SimulatedClock::clock_adjust\<close>: the returned value and the clock as the call leaves
  it.
\<close>

definition clock_adjust ::
  "'stats SimulatedClock \<Rightarrow> Time \<Rightarrow> Time \<times> 'stats SimulatedClock" where
  "clock_adjust c amount =
     (Time_subns 0,
      c\<lparr>m_count_coarse := m_count_coarse c + 1,
        m_rtc := add_assign (m_rtc c) amount\<rparr>)"

text \<open>\<^verbatim>\<open>SimulatedClock::clock_rate\<close>, with the method \<^verbatim>\<open>add\<close> of the statistics object.\<close>

definition clock_rate ::
  "('stats \<Rightarrow> s64 \<Rightarrow> 'stats) \<Rightarrow> 'stats SimulatedClock \<Rightarrow> s64 \<Rightarrow> 'stats SimulatedClock" where
  "clock_rate add c offset =
     c\<lparr>m_count_fine := m_count_fine c + 1,
       m_offset := offset,
       m_stats := add (m_stats c) offset\<rparr>"

text \<open>A clock for the examples: it shows 100 subnanoseconds and its rate offset is 7.\<close>

definition example_clock :: "unit SimulatedClock" where
  "example_clock =
     \<lparr>m_nco_rate = 0, m_nco_accum = 0, m_count_coarse = 0, m_count_fine = 0,
      m_rtc = Time_subns 100, m_offset = 7, m_stats = ()\<rparr>"

chapter \<open>Properties\<close>

section \<open>Properties of the ConfigBus address map\<close>

lemma unat_get_regaddr:
  assumes "dev < 256" "reg < 1024"
  shows "unat (get_regaddr dev reg) = 1024 * unat dev + unat reg"
proof -
  have d: "unat dev < 256" using assms(1) by (simp add: word_less_nat_alt)
  have r: "unat reg < 1024" using assms(2) by (simp add: word_less_nat_alt)
  have "unat (get_regaddr dev reg) = (1024 * unat dev mod 2 ^ 32 + unat reg) mod 2 ^ 32"
    by (simp add: get_regaddr_def REGS_PER_DEVICE_def unat_word_ariths)
  also have "\<dots> = 1024 * unat dev + unat reg"
    using d r by simp
  finally show ?thesis .
qed

lemma get_regaddr_inj:
  assumes "dev < 256" "reg < 1024" "dev' < 256" "reg' < 1024"
    and eq: "get_regaddr dev reg = get_regaddr dev' reg'"
  shows "dev = dev' \<and> reg = reg'"
proof -
  have d: "unat reg < 1024" "unat reg' < 1024"
    using assms by (simp_all add: word_less_nat_alt)
  have "1024 * unat dev + unat reg = 1024 * unat dev' + unat reg'"
    using unat_get_regaddr[OF assms(1,2)] unat_get_regaddr[OF assms(3,4)] eq by simp
  then have "(1024 * unat dev + unat reg) div 1024 = (1024 * unat dev' + unat reg') div 1024"
    and "(1024 * unat dev + unat reg) mod 1024 = (1024 * unat dev' + unat reg') mod 1024"
    by simp_all
  with d have "unat dev = unat dev'" and "unat reg = unat reg'" by simp_all
  then show ?thesis by (simp add: word_unat_eq_iff)
qed

lemma get_regaddr_bound:
  assumes "dev < 256" "reg < 1024"
  shows "get_regaddr dev reg < MAX_TOTAL_REGS"
proof -
  have d: "unat dev < 256" using assms(1) by (simp add: word_less_nat_alt)
  have r: "unat reg < 1024" using assms(2) by (simp add: word_less_nat_alt)
  have "unat (get_regaddr dev reg) < 262144"
    using unat_get_regaddr[OF assms] d r by simp
  then show ?thesis
    by (simp add: word_less_nat_alt MAX_TOTAL_REGS_def REGS_PER_DEVICE_def MAX_DEVICES_def)
qed

text \<open>
  Claim C7. \<^verbatim>\<open>get_regaddr(dev, reg)\<close> returns \<open>1024 * dev + reg\<close> (in unsigned
  arithmetic, for all arguments). For a device index below 256 and a register index
  below 1024 the sum does not wrap, so the result read as a natural number is
  \<open>1024 * dev + reg\<close>; it lies below \<open>MAX_TOTAL_REGS = 262144\<close>; and two such pairs
  with the same combined address are the same pair.
\<close>

theorem get_regaddr_combined_address:
  "get_regaddr dev reg = 1024 * dev + reg \<and>
   unat MAX_TOTAL_REGS = 262144 \<and>
   (dev < 256 \<and> reg < 1024 \<longrightarrow>
      unat (get_regaddr dev reg) = 1024 * unat dev + unat reg \<and>
      get_regaddr dev reg < MAX_TOTAL_REGS \<and>
      (\<forall>dev' reg'. dev' < 256 \<and> reg' < 1024 \<and> get_regaddr dev' reg' = get_regaddr dev reg
         \<longrightarrow> dev' = dev \<and> reg' = reg))"
proof (intro conjI impI allI)
  show "get_regaddr dev reg = 1024 * dev + reg"
    by (simp add: get_regaddr_def REGS_PER_DEVICE_def)
  show "unat MAX_TOTAL_REGS = 262144"
    by (simp add: MAX_TOTAL_REGS_def REGS_PER_DEVICE_def MAX_DEVICES_def)
next
  assume "dev < 256 \<and> reg < 1024"
  then show "unat (get_regaddr dev reg) = 1024 * unat dev + unat reg"
    by (simp add: unat_get_regaddr)
next
  assume "dev < 256 \<and> reg < 1024"
  then show "get_regaddr dev reg < MAX_TOTAL_REGS"
    by (simp add: get_regaddr_bound)
next
  fix dev' reg'
  assume a: "dev < 256 \<and> reg < 1024"
    and b: "dev' < 256 \<and> reg' < 1024 \<and> get_regaddr dev' reg' = get_regaddr dev reg"
  from a b show "dev' = dev" using get_regaddr_inj[of dev' reg' dev reg] by simp
  from a b show "reg' = reg" using get_regaddr_inj[of dev' reg' dev reg] by simp
qed

theorem get_regaddr_combined_address_witness:
  "(3 :: unsigned) < 256 \<and> (5 :: unsigned) < 1024 \<and>
   get_regaddr 3 5 = 3077 \<and> unat (get_regaddr 3 5) = 3077 \<and>
   get_regaddr 3 5 < MAX_TOTAL_REGS"
proof -
  have h: "(3 :: unsigned) < 256 \<and> (5 :: unsigned) < 1024" by simp
  have w: "get_regaddr 3 5 = 1024 * 3 + 5 \<and>
      unat (get_regaddr 3 5) = 1024 * unat (3 :: unsigned) + unat (5 :: unsigned) \<and>
      get_regaddr 3 5 < MAX_TOTAL_REGS"
    using get_regaddr_combined_address [of 3 5] h by blast
  from w have a: "get_regaddr 3 5 = 3077" by simp
  from w have b: "unat (get_regaddr 3 5) = 3077" by simp
  from w have c: "get_regaddr 3 5 < MAX_TOTAL_REGS" by blast
  from h a b c show ?thesis by blast
qed

section \<open>Properties of the intrusive list\<close>

subsection \<open>Loops on a well-formed list\<close>

lemma is_list_nonzero: "is_list h p xs \<Longrightarrow> 0 \<notin> set xs"
  by (induction xs arbitrary: p) auto

lemma is_list_upd: "is_list h p xs \<Longrightarrow> x \<notin> set xs \<Longrightarrow> is_list (h(x := v)) p xs"
  by (induction xs arbitrary: p) auto

lemma len_loop_is_list:
  "is_list h p xs \<Longrightarrow> len_loop h p c = Some (c + of_nat (length xs))"
proof (induction xs arbitrary: p c)
  case Nil
  then show ?case by (subst len_loop.simps) simp
next
  case (Cons x xs)
  then have "len_loop h (h x) (c + 1) = Some (c + 1 + of_nat (length xs))" by simp
  with Cons.prems show ?case by (subst len_loop.simps) (simp add: add.assoc)
qed

lemma contains_loop_is_list:
  "is_list h p xs \<Longrightarrow> contains_loop h p item = Some (item \<in> set xs)"
proof (induction xs arbitrary: p)
  case Nil
  then show ?case by (subst contains_loop.simps) simp
next
  case (Cons x xs)
  then have "contains_loop h (h x) item = Some (item \<in> set xs)" by simp
  with Cons.prems show ?case by (subst contains_loop.simps) auto
qed

lemma find_ptr_loop_absent:
  "is_list h (load h list lnk) xs \<Longrightarrow> item \<notin> set xs \<Longrightarrow> item \<noteq> 0 \<Longrightarrow>
   find_ptr_loop h list lnk item = Some None"
proof (induction xs arbitrary: lnk)
  case Nil
  then show ?case by (subst find_ptr_loop.simps) auto
next
  case (Cons x xs)
  from Cons.prems have x: "load h list lnk = x" "x \<noteq> 0" "x \<noteq> item" by auto
  from Cons.prems have "is_list h (load h list (NextOf x)) xs" by simp
  then have "find_ptr_loop h list (NextOf x) item = Some None"
    using Cons.IH Cons.prems by simp
  with x show ?case by (subst find_ptr_loop.simps) simp
qed

lemma remove_absent:
  assumes "is_list h list xs" "x \<noteq> 0" "x \<notin> set xs"
  shows "remove h list x = Some (Inr (list, h(x := 0)))"
proof -
  have "find_ptr h list x = Some None"
    unfolding find_ptr_def using assms by (intro find_ptr_loop_absent[where xs = xs]) simp_all
  then show ?thesis using assms(2) by (simp add: remove_def)
qed

lemma remove_pushed:
  assumes "x \<noteq> 0"
  shows "remove (h(x := list)) x x = Some (Inr (list, h(x := 0)))"
proof -
  have "find_ptr (h(x := list)) x x = Some (Some ListVar)"
    unfolding find_ptr_def by (subst find_ptr_loop.simps) simp
  then show ?thesis using assms by (simp add: remove_def)
qed

subsection \<open>Chains of pointers\<close>

lemma chain_0 [simp]: "chain h p 0 = p"
  by (simp add: chain_def)

lemma chain_Suc: "chain h p (Suc k) = follow h (chain h p k)"
  by (simp add: chain_def)

lemma chain_add: "chain h p (i + j) = chain h (chain h p i) j"
proof -
  have "(follow h ^^ (j + i)) p = (follow h ^^ j) ((follow h ^^ i) p)"
    by (simp add: funpow_add)
  moreover have "i + j = j + i" by simp
  ultimately show ?thesis unfolding chain_def by metis
qed

lemma chain_null [simp]: "chain h 0 k = 0"
  by (induction k) (simp_all add: chain_Suc follow_def)

lemma chain_null_stays:
  assumes "chain h p k = 0" "k \<le> m"
  shows "chain h p m = 0"
proof -
  from assms(2) obtain d where "m = k + d" using le_Suc_ex by blast
  then show ?thesis using assms(1) by (simp add: chain_add)
qed

lemma chain_period:
  assumes "chain h p i = chain h p (i + c)"
  shows "chain h p (i + m * c) = chain h p i"
proof (induction m)
  case 0
  then show ?case by simp
next
  case (Suc m)
  have "i + Suc m * c = (i + c) + m * c" by simp
  then have "chain h p (i + Suc m * c) = chain h (chain h p (i + c)) (m * c)"
    by (simp only: chain_add)
  also have "\<dots> = chain h (chain h p i) (m * c)"
    using assms by simp
  also have "\<dots> = chain h p (i + m * c)"
    by (simp only: chain_add)
  finally show ?case using Suc by simp
qed

lemma revisit_never_null:
  assumes "i < j" "chain h p i \<noteq> 0" "chain h p i = chain h p j"
  shows "chain h p k \<noteq> 0"
proof
  assume k: "chain h p k = 0"
  from assms(1) obtain c where c: "j = i + c" "0 < c"
    using less_imp_add_positive by blast
  have "chain h p (i + k * c) = chain h p i"
    using assms(3) c(1) by (intro chain_period) simp
  moreover have "k \<le> i + k * c" using c(2) by (simp add: trans_le_add2)
  ultimately have "chain h p i = 0" using chain_null_stays[OF k] by simp
  with assms(2) show False by simp
qed

lemma never_null_revisits:
  assumes "\<forall>k. chain h p k \<noteq> 0"
  shows "revisits h p"
proof -
  have "\<not> inj (chain h p)"
  proof
    assume "inj (chain h p)"
    then have "finite (UNIV :: nat set)"
      by (rule finite_imageD[rotated]) simp
    then show False by simp
  qed
  then obtain i j where ij: "chain h p i = chain h p j" "i \<noteq> j"
    by (auto simp: inj_on_def)
  then consider "i < j" | "j < i" by (meson nat_neq_iff)
  then show ?thesis
  proof cases
    case 1
    with ij(1) assms show ?thesis unfolding revisits_def by blast
  next
    case 2
    with ij(1)[symmetric] assms show ?thesis unfolding revisits_def by blast
  qed
qed

lemma revisits_iff: "revisits h p \<longleftrightarrow> \<not> null_terminated h p"
proof
  assume "revisits h p"
  then obtain i j where ij: "i < j" "chain h p i \<noteq> 0" "chain h p i = chain h p j"
    unfolding revisits_def by blast
  have "chain h p k \<noteq> 0" for k
    using ij by (rule revisit_never_null)
  then show "\<not> null_terminated h p"
    unfolding null_terminated_def by simp
next
  assume "\<not> null_terminated h p"
  then have "\<forall>k. chain h p k \<noteq> 0"
    unfolding null_terminated_def by simp
  then show "revisits h p" by (rule never_null_revisits)
qed

lemma is_list_chain: "is_list h p xs \<Longrightarrow> chain h p (length xs) = 0"
proof (induction xs arbitrary: p)
  case Nil
  then show ?case by simp
next
  case (Cons x xs)
  then have "chain h (h x) (length xs) = 0" by simp
  moreover have "chain h p (length (x # xs)) = chain h (chain h p 1) (length xs)"
    using chain_add[of h p 1 "length xs"] by simp
  moreover have "chain h p 1 = h x" using Cons.prems by (simp add: chain_def follow_def)
  ultimately show ?case by simp
qed

subsection \<open>The tortoise and the hare\<close>

text \<open>
  After \<open>n\<close> rounds of the loop \<^verbatim>\<open>slow\<close> is at position \<open>n\<close> of the chain and
  \<^verbatim>\<open>fast\<close> at position \<open>2 * n + 1\<close>. On a chain that never reaches null the two meet
  at the latest in the round \<open>N\<close> with \<open>chain N = chain (2 * N + 1)\<close>.
\<close>

lemma has_loop_loop_true:
  assumes nn: "\<forall>k. chain h p k \<noteq> 0"
    and hit: "chain h p N = chain h p (2 * N + 1)"
  shows "n \<le> N \<Longrightarrow> has_loop_loop h (chain h p n) (chain h p (2 * n + 1)) = Some (Inr True)"
proof (induction "N - n" arbitrary: n)
  case 0
  then have "n = N" by simp
  have f: "chain h p (2 * n + 1) \<noteq> 0" "h (chain h p (2 * n + 1)) \<noteq> 0"
    using nn chain_Suc[of h p "2 * n + 1"] by (auto simp: follow_def)
  show ?case
    using f hit \<open>n = N\<close> by (subst has_loop_loop.simps) simp
next
  case (Suc d)
  then have le: "Suc n \<le> N" and d: "d = N - Suc n" by simp_all
  have f: "chain h p (2 * n + 1) \<noteq> 0" "h (chain h p (2 * n + 1)) \<noteq> 0" "chain h p n \<noteq> 0"
    using nn chain_Suc[of h p "2 * n + 1"] by (auto simp: follow_def)
  have s: "h (chain h p n) = chain h p (Suc n)"
    using f(3) by (simp add: chain_Suc follow_def)
  have ff: "h (h (chain h p (2 * n + 1))) = chain h p (2 * Suc n + 1)"
    using f(1,2) by (simp add: chain_Suc follow_def)
  have "has_loop_loop h (chain h p (Suc n)) (chain h p (2 * Suc n + 1)) = Some (Inr True)"
    using Suc.hyps(1)[OF d le] .
  then show ?case
    using f s ff by (subst has_loop_loop.simps) simp
qed

text \<open>
  On a chain that reaches null the two pointers never meet, and \<^verbatim>\<open>fast\<close> finds the end.
\<close>

lemma has_loop_loop_false:
  assumes nt: "chain h p K = 0"
  shows "has_loop_loop h (chain h p n) (chain h p (2 * n + 1)) = Some (Inr False)"
proof (induction "K - 2 * n" arbitrary: n rule: less_induct)
  case less
  show ?case
  proof (cases "chain h p (2 * n + 1) \<noteq> 0 \<and> h (chain h p (2 * n + 1)) \<noteq> 0")
    case False
    then show ?thesis by (subst has_loop_loop.simps) auto
  next
    case True
    then have f2: "chain h p (2 * n + 2) \<noteq> 0"
      using chain_Suc[of h p "2 * n + 1"] by (simp add: follow_def)
    have lt: "2 * n + 2 < K"
    proof (rule ccontr)
      assume "\<not> 2 * n + 2 < K"
      then have "K \<le> 2 * n + 2" by simp
      from chain_null_stays[OF nt this] f2 show False by simp
    qed
    have sn: "chain h p n \<noteq> 0"
      using f2 chain_null_stays[of h p n "2 * n + 2"] by auto
    have ne1: "chain h p n \<noteq> chain h p (2 * n + 1)"
      using revisit_never_null[of n "2 * n + 1" h p K] sn nt by auto
    have ne2: "chain h p n \<noteq> h (chain h p (2 * n + 1))"
    proof -
      have "h (chain h p (2 * n + 1)) = chain h p (2 * n + 2)"
        using True chain_Suc[of h p "2 * n + 1"] by (simp add: follow_def)
      then show ?thesis
        using revisit_never_null[of n "2 * n + 2" h p K] sn nt by auto
    qed
    have s: "h (chain h p n) = chain h p (Suc n)"
      using sn by (simp add: chain_Suc follow_def)
    have ff: "h (h (chain h p (2 * n + 1))) = chain h p (2 * Suc n + 1)"
      using True by (simp add: chain_Suc follow_def)
    have "has_loop_loop h (chain h p (Suc n)) (chain h p (2 * Suc n + 1)) = Some (Inr False)"
      using lt by (intro less.hyps) simp
    then show ?thesis
      using True sn ne1 ne2 s ff by (subst has_loop_loop.simps) simp
  qed
qed

lemma has_loop_result: "has_loop h list = Some (Inr (\<not> null_terminated h list))"
proof (cases "list = 0")
  case True
  then have "null_terminated h list"
    unfolding null_terminated_def by (intro exI[of _ 0]) simp
  with True show ?thesis by (simp add: has_loop_def)
next
  case False
  then have start: "has_loop h list = has_loop_loop h (chain h list 0) (chain h list (2 * 0 + 1))"
    by (simp add: has_loop_def chain_Suc follow_def)
  show ?thesis
  proof (cases "null_terminated h list")
    case True
    then obtain K where "chain h list K = 0" unfolding null_terminated_def by blast
    then show ?thesis using start True has_loop_loop_false[of h list K 0] by simp
  next
    case nt: False
    then have nn: "\<forall>k. chain h list k \<noteq> 0" unfolding null_terminated_def by simp
    then have "revisits h list" by (rule never_null_revisits)
    then obtain i j where ij: "i < j" "chain h list i = chain h list j"
      unfolding revisits_def by blast
    then obtain c where c: "j = i + c" "0 < c" using less_imp_add_positive by blast
    define N where "N = (i + 1) * c - 1"
    have "(i + 1) * 1 \<le> (i + 1) * c" using c(2) by (intro mult_le_mono2) simp
    then have pos: "i + 1 \<le> (i + 1) * c" by simp
    then have Ni: "i \<le> N" and N1: "N + 1 = (i + 1) * c"
      unfolding N_def by simp_all
    obtain e where e: "N = i + e" using Ni le_Suc_ex by blast
    have "2 * N + 1 = N + (N + 1)" by simp
    also have "\<dots> = i + (i + 1) * c + e" unfolding N1 using e by simp
    finally have "chain h list (2 * N + 1) = chain h list (i + (i + 1) * c + e)"
      by simp
    also have "\<dots> = chain h (chain h list (i + (i + 1) * c)) e"
      by (simp only: chain_add)
    also have "chain h list (i + (i + 1) * c) = chain h list i"
      using ij(2) c(1) by (intro chain_period) simp
    also have "chain h (chain h list i) e = chain h list N"
      using e by (simp add: chain_add)
    finally have hit: "chain h list N = chain h list (2 * N + 1)" by simp
    show ?thesis
      using start nt has_loop_loop_true[OF nn hit, of 0] by simp
  qed
qed

subsection \<open>The claims about lists\<close>

text \<open>
  Claim C4. Let \<open>list\<close> be the head of a list with the nodes \<open>xs\<close>, and \<open>x\<close> a node that
  is not null, is not one of \<open>xs\<close> and whose \<^verbatim>\<open>m_next\<close> pointer is null. Then
  \<^verbatim>\<open>push_front(list, x)\<close> makes \<open>x\<close> the head of the list \<open>x # xs\<close>; \<^verbatim>\<open>len\<close> returns one
  more than before (as \<^verbatim>\<open>unsigned\<close> values); \<^verbatim>\<open>contains\<close> finds \<open>x\<close>; and
  \<^verbatim>\<open>remove(list, x)\<close> after it gives back the head and the store as they were.
\<close>

theorem push_front_len_contains_remove:
  assumes "is_list h list xs" and "x \<noteq> 0" and "x \<notin> set xs" and "h x = 0"
  shows "push_front h list x = Inr (x, h(x := list)) \<and>
         is_list (h(x := list)) x (x # xs) \<and>
         len h list = Some (of_nat (length xs)) \<and>
         len (h(x := list)) x = Some (of_nat (length xs) + 1) \<and>
         contains (h(x := list)) x x = Some True \<and>
         remove (h(x := list)) x x = Some (Inr (list, h))"
proof -
  have pushed: "is_list (h(x := list)) x (x # xs)"
    using assms by (simp add: is_list_upd)
  have "len (h(x := list)) x = Some (0 + of_nat (length (x # xs)))"
    unfolding len_def using pushed by (rule len_loop_is_list)
  then have len_after: "len (h(x := list)) x = Some (of_nat (length xs) + 1)"
    by simp
  have len_before: "len h list = Some (of_nat (length xs))"
    unfolding len_def using len_loop_is_list[OF assms(1), of 0] by simp
  have found: "contains (h(x := list)) x x = Some True"
    unfolding contains_def using contains_loop_is_list[OF pushed, of x] by simp
  have "h(x := 0) = h" using assms(4) by (simp add: fun_upd_idem)
  then have removed: "remove (h(x := list)) x x = Some (Inr (list, h))"
    using remove_pushed[OF assms(2), of h list] by simp
  from assms(2) pushed len_before len_after found removed show ?thesis
    by (simp add: push_front_def)
qed

theorem push_front_len_contains_remove_witness:
  "push_front example_heap 1 3 = Inr (3, example_heap(3 := 1)) \<and>
   is_list (example_heap(3 := 1)) 3 [3, 1, 2] \<and>
   len example_heap 1 = Some 2 \<and>
   len (example_heap(3 := 1)) 3 = Some 3 \<and>
   contains (example_heap(3 := 1)) 3 3 = Some True \<and>
   remove (example_heap(3 := 1)) 3 3 = Some (Inr (1, example_heap))"
proof -
  have "is_list example_heap 1 [1, 2]" and "(3 :: ptr) \<noteq> 0"
    and "(3 :: ptr) \<notin> set [1, 2]" and "example_heap 3 = 0"
    by (simp_all add: example_heap_def)
  from push_front_len_contains_remove [OF this] show ?thesis by simp
qed

text \<open>
  Claim C9. Let \<open>list\<close> be the head of a list with the nodes \<open>xs\<close>, and \<open>x\<close> a node that
  is not null and is not one of \<open>xs\<close> (\<^verbatim>\<open>contains\<close> returns false). Then
  \<^verbatim>\<open>remove(list, x)\<close> returns with the head unchanged and with no field written but the
  \<^verbatim>\<open>m_next\<close> of \<open>x\<close>, which is null afterwards; the list still has the nodes \<open>xs\<close> in the
  same order.
\<close>

theorem remove_absent_keeps_list:
  assumes "is_list h list xs" and "x \<noteq> 0" and "x \<notin> set xs"
  shows "contains h list x = Some False \<and>
         remove h list x = Some (Inr (list, h(x := 0))) \<and>
         is_list (h(x := 0)) list xs \<and>
         (h(x := 0)) x = 0"
proof -
  have "contains h list x = Some False"
    unfolding contains_def using contains_loop_is_list[OF assms(1), of x] assms(3) by simp
  moreover have "remove h list x = Some (Inr (list, h(x := 0)))"
    using assms by (rule remove_absent)
  moreover have "is_list (h(x := 0)) list xs"
    using assms(1,3) by (rule is_list_upd)
  ultimately show ?thesis by simp
qed

theorem remove_absent_keeps_list_witness:
  "contains example_heap 1 4 = Some False \<and>
   remove example_heap 1 4 = Some (Inr (1, example_heap(4 := 0))) \<and>
   is_list (example_heap(4 := 0)) 1 [1, 2] \<and>
   (example_heap(4 := 0)) 4 = 0"
proof -
  have "is_list example_heap 1 [1, 2]" and "(4 :: ptr) \<noteq> 0"
    and "(4 :: ptr) \<notin> set [1, 2]"
    by (simp_all add: example_heap_def)
  from remove_absent_keeps_list [OF this] show ?thesis .
qed

text \<open>
  Claim C6. For every store of \<^verbatim>\<open>m_next\<close> pointers and every head, \<^verbatim>\<open>has_loop\<close>
  returns, without reading through a null pointer, and it returns true exactly when
  the chain of \<^verbatim>\<open>m_next\<close> pointers from the head revisits a node. Addresses are finite
  in number, so the chain revisits a node exactly when it never reaches a null
  pointer. For the head of a list (a finite chain that ends in null) it returns false.
\<close>

theorem has_loop_tortoise_hare:
  "has_loop h list = Some (Inr (revisits h list)) \<and>
   (revisits h list \<longleftrightarrow> \<not> null_terminated h list) \<and>
   (\<forall>xs. is_list h list xs \<longrightarrow> has_loop h list = Some (Inr False))"
proof (intro conjI allI impI)
  show "has_loop h list = Some (Inr (revisits h list))"
    by (simp add: has_loop_result revisits_iff)
  show "revisits h list \<longleftrightarrow> \<not> null_terminated h list"
    by (rule revisits_iff)
next
  fix xs
  assume "is_list h list xs"
  then have "chain h list (length xs) = 0" by (rule is_list_chain)
  then have "null_terminated h list" unfolding null_terminated_def by blast
  then show "has_loop h list = Some (Inr False)" by (simp add: has_loop_result)
qed

theorem has_loop_tortoise_hare_witness:
  "is_list example_heap 1 [1, 2] \<and> has_loop example_heap 1 = Some (Inr False) \<and>
   revisits example_cycle 1 \<and> has_loop example_cycle 1 = Some (Inr True)"
proof -
  have l: "is_list example_heap 1 [1, 2]" by (simp add: example_heap_def)
  from has_loop_tortoise_hare [of example_heap 1] l
  have f: "has_loop example_heap 1 = Some (Inr False)" by blast
  have r: "revisits example_cycle 1"
    unfolding revisits_def
    by (rule exI[of _ "Suc 0"], rule exI[of _ "Suc (Suc (Suc 0))"])
      (simp add: chain_def follow_def example_cycle_def)
  from has_loop_tortoise_hare [of example_cycle 1] r
  have t: "has_loop example_cycle 1 = Some (Inr True)" by simp
  from l f r t show ?thesis by blast
qed

text \<open>
  The same two results by running the loop on the two example stores.
\<close>

lemma has_loop_examples:
  "has_loop example_heap 1 = Some (Inr False)"
  "has_loop example_cycle 1 = Some (Inr True)"
  by (simp_all add: has_loop_def has_loop_loop.simps example_heap_def example_cycle_def)

section \<open>Properties of the PTP time value\<close>

subsection \<open>Signed reading of 64-bit words\<close>

lemma sint_SUBNS_PER_SEC: "sint SUBNS_PER_SEC = 65536000000000"
  by (simp add: SUBNS_PER_SEC_def SUBNS_PER_NSEC_def NSEC_PER_SEC_def)

lemma sint_SUBNS_PER_NSEC: "sint SUBNS_PER_NSEC = 65536"
  by (simp add: SUBNS_PER_NSEC_def)

lemma sint_word_of_int_64:
  "- (2 ^ 63) \<le> k \<Longrightarrow> k < 2 ^ 63 \<Longrightarrow> sint (word_of_int k :: 64 word) = k"
  by (simp add: signed_of_int signed_take_bit_int_eq_self)

lemma sint_add_64:
  fixes a b :: "64 word"
  assumes "- (2 ^ 63) \<le> sint a + sint b" "sint a + sint b < 2 ^ 63"
  shows "sint (a + b) = sint a + sint b"
proof -
  have "a + b = word_of_int (sint a + sint b)" by simp
  then show ?thesis using assms by (simp only: sint_word_of_int_64)
qed

lemma sint_sub_64:
  fixes a b :: "64 word"
  assumes "- (2 ^ 63) \<le> sint a - sint b" "sint a - sint b < 2 ^ 63"
  shows "sint (a - b) = sint a - sint b"
proof -
  have "a - b = word_of_int (sint a - sint b)" by simp
  then show ?thesis using assms by (simp only: sint_word_of_int_64)
qed


lemma SUBNS_PER_SEC_pos: "0 < sint SUBNS_PER_SEC"
  by (simp add: sint_SUBNS_PER_SEC)

lemma SUBNS_PER_SEC_small: "sint SUBNS_PER_SEC < 2 ^ 62"
  by (simp add: sint_SUBNS_PER_SEC)

lemma sint_mod_SUBNS:
  "sint (word_of_int (k mod sint SUBNS_PER_SEC) :: s64) = k mod sint SUBNS_PER_SEC"
proof -
  have "0 \<le> k mod sint SUBNS_PER_SEC" "k mod sint SUBNS_PER_SEC < sint SUBNS_PER_SEC"
    using SUBNS_PER_SEC_pos by simp_all
  then have "- (2 ^ 63) \<le> k mod sint SUBNS_PER_SEC" "k mod sint SUBNS_PER_SEC < 2 ^ 63"
    using SUBNS_PER_SEC_small by simp_all
  then show ?thesis by (rule sint_word_of_int_64)
qed

lemma canonical_mod:
  "canonical \<lparr>m_secs = s, m_subns = word_of_int (k mod sint SUBNS_PER_SEC)\<rparr>"
  unfolding canonical_def using SUBNS_PER_SEC_pos by (simp add: sint_mod_SUBNS)

lemma normalize_canonical: "canonical (normalize_time t)"
  unfolding normalize_time_def modulo_s64_def by (rule canonical_mod)

lemma normalize_id:
  assumes "canonical t"
  shows "normalize_time t = t"
proof -
  from assms have r: "0 \<le> sint (m_subns t)" "sint (m_subns t) < sint SUBNS_PER_SEC"
    by (simp_all add: canonical_def)
  then have "sint (m_subns t) div sint SUBNS_PER_SEC = 0"
    and "sint (m_subns t) mod sint SUBNS_PER_SEC = sint (m_subns t)"
    by simp_all
  then show ?thesis by (simp add: normalize_time_def divide_s64_def modulo_s64_def)
qed

lemma Time_subns_canonical: "canonical (Time_subns x)"
  unfolding Time_subns_def modulo_s64_def by (rule canonical_mod)

lemma mul_assign_canonical: "canonical (mul_assign t k)"
  unfolding mul_assign_def Let_def by (rule canonical_mod)

lemma div_assign_canonical: "div_assign t k = Inr r \<Longrightarrow> canonical r"
  by (auto simp: div_assign_def Let_def normalize_canonical split: if_splits)

lemma produced_canonical: "produced t \<Longrightarrow> canonical t"
proof (induction rule: produced.induct)
  case by_default
  show ?case using SUBNS_PER_SEC_pos by (simp add: canonical_def Time_default_def)
next
  case (by_copy a)
  then show ?case by (simp add: canonical_def Time_copy_def)
next
  case (by_divide a k t)
  then show ?case by (simp add: Time_divide_def div_assign_canonical)
next
  case (by_div_assign a k t)
  then show ?case by (simp add: div_assign_canonical)
qed (simp_all add: Time_subns_canonical Time_fields_def Time_neg_def Time_plus_def
      Time_minus_def add_assign_def sub_assign_def Time_times_def mul_assign_canonical
      normalize_canonical)

lemma negative_total_secs:
  assumes "canonical t" "total_subns t < 0"
  shows "sint (m_secs t) < 0"
proof (rule ccontr)
  assume "\<not> sint (m_secs t) < 0"
  then have "0 \<le> sint (m_secs t) * sint SUBNS_PER_SEC"
    using SUBNS_PER_SEC_pos by simp
  with assms show False by (simp add: canonical_def total_subns_def)
qed

lemma roundtrip_mod:
  fixes A B S :: int
  assumes "0 \<le> A" "A < S"
  shows "((A + B) mod S - B) mod S = A"
proof -
  have "((A + B) mod S - B) mod S = (A + B - B) mod S"
    by (simp only: mod_diff_left_eq)
  then show ?thesis using assms by simp
qed

lemma roundtrip_div:
  fixes A B S :: int
  assumes "0 \<le> A" "A < S"
  shows "(A + B) div S + ((A + B) mod S - B) div S = 0"
proof -
  define d where "d = (A + B) div S"
  have "(A + B) mod S = A + B - S * d"
    unfolding d_def by (simp add: minus_mult_div_eq_mod)
  then have "(A + B) mod S - B = A + (- d) * S" by (simp add: algebra_simps)
  then have "((A + B) mod S - B) div S = (A + (- d) * S) div S" by simp
  also have "\<dots> = A div S + (- d)"
    using assms by (subst div_mult_self1) auto
  also have "A div S = 0" using assms by simp
  finally show ?thesis unfolding d_def by simp
qed


lemma Time_plus_secs:
  assumes "canonical a" "canonical b"
  shows "m_secs (Time_plus a b) =
      m_secs a + m_secs b
        + word_of_int ((sint (m_subns a) + sint (m_subns b)) div sint SUBNS_PER_SEC)"
    and "sint (m_subns (Time_plus a b)) =
      (sint (m_subns a) + sint (m_subns b)) mod sint SUBNS_PER_SEC"
proof -
  from assms have r: "0 \<le> sint (m_subns a)" "sint (m_subns a) < sint SUBNS_PER_SEC"
    "0 \<le> sint (m_subns b)" "sint (m_subns b) < sint SUBNS_PER_SEC"
    by (simp_all add: canonical_def)
  have "sint (m_subns a + m_subns b) = sint (m_subns a) + sint (m_subns b)"
    using r SUBNS_PER_SEC_small by (intro sint_add_64) simp_all
  then show "m_secs (Time_plus a b) =
      m_secs a + m_secs b
        + word_of_int ((sint (m_subns a) + sint (m_subns b)) div sint SUBNS_PER_SEC)"
    and "sint (m_subns (Time_plus a b)) =
      (sint (m_subns a) + sint (m_subns b)) mod sint SUBNS_PER_SEC"
    by (simp_all add: Time_plus_def Time_copy_def add_assign_def normalize_time_def divide_s64_def
        modulo_s64_def sint_mod_SUBNS)
qed

lemma Time_minus_fields:
  assumes "canonical a" "canonical b"
  shows "m_secs (Time_minus a b) =
      m_secs a - m_secs b
        + word_of_int ((sint (m_subns a) - sint (m_subns b)) div sint SUBNS_PER_SEC)"
    and "m_subns (Time_minus a b) =
      word_of_int ((sint (m_subns a) - sint (m_subns b)) mod sint SUBNS_PER_SEC)"
proof -
  from assms have r: "0 \<le> sint (m_subns a)" "sint (m_subns a) < sint SUBNS_PER_SEC"
    "0 \<le> sint (m_subns b)" "sint (m_subns b) < sint SUBNS_PER_SEC"
    by (simp_all add: canonical_def)
  have "sint (m_subns a - m_subns b) = sint (m_subns a) - sint (m_subns b)"
    using r SUBNS_PER_SEC_small by (intro sint_sub_64) simp_all
  then show "m_secs (Time_minus a b) =
      m_secs a - m_secs b
        + word_of_int ((sint (m_subns a) - sint (m_subns b)) div sint SUBNS_PER_SEC)"
    and "m_subns (Time_minus a b) =
      word_of_int ((sint (m_subns a) - sint (m_subns b)) mod sint SUBNS_PER_SEC)"
    by (simp_all add: Time_minus_def Time_copy_def sub_assign_def normalize_time_def divide_s64_def
        modulo_s64_def)
qed

lemma Time_plus_canonical: "canonical (Time_plus a b)"
  by (simp add: Time_plus_def add_assign_def normalize_canonical)

lemma plus_minus_cancel:
  assumes a: "canonical a" and b: "canonical b"
  shows "Time_minus (Time_plus a b) b = a"
proof -
  define A where "A = sint (m_subns a)"
  define B where "B = sint (m_subns b)"
  define S where "S = sint SUBNS_PER_SEC"
  from a have A: "0 \<le> A" "A < S" by (simp_all add: canonical_def A_def S_def)
  have c: "canonical (Time_plus a b)" by (rule Time_plus_canonical)
  have secs: "m_secs (Time_minus (Time_plus a b) b) =
      m_secs a + (word_of_int ((A + B) div S) + word_of_int (((A + B) mod S - B) div S))"
    unfolding Time_minus_fields(1)[OF c b] Time_plus_secs[OF a b] A_def B_def S_def
    by simp
  have "(word_of_int ((A + B) div S) + word_of_int (((A + B) mod S - B) div S) :: s64)
      = word_of_int ((A + B) div S + ((A + B) mod S - B) div S)"
    by simp
  also have "\<dots> = 0" using roundtrip_div[OF A] by simp
  finally have secs': "m_secs (Time_minus (Time_plus a b) b) = m_secs a"
    using secs by simp
  have "m_subns (Time_minus (Time_plus a b) b) = word_of_int (((A + B) mod S - B) mod S)"
    unfolding Time_minus_fields(2)[OF c b] Time_plus_secs[OF a b] A_def B_def S_def
    by simp
  also have "\<dots> = word_of_int A" using roundtrip_mod[OF A] by simp
  also have "\<dots> = m_subns a" by (simp add: A_def)
  finally have subns': "m_subns (Time_minus (Time_plus a b) b) = m_subns a" .
  from secs' subns' show ?thesis by simp
qed

lemma canonical_div_mod:
  assumes "canonical t"
  shows "total_subns t div sint SUBNS_PER_SEC = sint (m_secs t)"
    and "total_subns t mod sint SUBNS_PER_SEC = sint (m_subns t)"
proof -
  from assms have r: "0 \<le> sint (m_subns t)" "sint (m_subns t) < sint SUBNS_PER_SEC"
    by (simp_all add: canonical_def)
  then have "sint (m_subns t) div sint SUBNS_PER_SEC = 0"
    and "sint (m_subns t) mod sint SUBNS_PER_SEC = sint (m_subns t)"
    by simp_all
  moreover have "sint SUBNS_PER_SEC \<noteq> 0" using SUBNS_PER_SEC_pos by simp
  ultimately show "total_subns t div sint SUBNS_PER_SEC = sint (m_secs t)"
    and "total_subns t mod sint SUBNS_PER_SEC = sint (m_subns t)"
    by (simp_all add: total_subns_def add.commute[of "sint (m_secs t) * sint SUBNS_PER_SEC"])
qed

text \<open>
  The sum of two canonical values stands for the sum of their times, as long as the
  seconds do not leave the range of a signed 64-bit integer.
\<close>

lemma total_subns_plus:
  assumes a: "canonical a" and b: "canonical b"
    and lo: "- (2 ^ 63) \<le> sint (m_secs a) + sint (m_secs b)"
    and hi: "sint (m_secs a) + sint (m_secs b) + 1 < 2 ^ 63"
  shows "total_subns (Time_plus a b) = total_subns a + total_subns b"
proof -
  define A where "A = sint (m_subns a)"
  define B where "B = sint (m_subns b)"
  define S where "S = sint SUBNS_PER_SEC"
  define d where "d = (A + B) div S"
  from a b have r: "0 \<le> A" "A < S" "0 \<le> B" "B < S"
    by (simp_all add: canonical_def A_def B_def S_def)
  have S: "0 < S" unfolding S_def by (rule SUBNS_PER_SEC_pos)
  have d0: "0 \<le> d" unfolding d_def using r S by (simp add: pos_imp_zdiv_nonneg_iff)
  have "A + B \<le> S + (S - 1)" using r by simp
  then have "(A + B) div S \<le> (S + (S - 1)) div S"
    using S by (intro zdiv_mono1)
  also have "(S + (S - 1)) div S = (S - 1) div S + 1"
    using S by (subst div_add_self1) simp_all
  also have "(S - 1) div S = 0" using S by simp
  finally have d1: "d \<le> 1" unfolding d_def by simp
  have "m_secs (Time_plus a b) = word_of_int (sint (m_secs a) + sint (m_secs b) + d)"
    unfolding Time_plus_secs(1)[OF a b] d_def A_def B_def S_def by simp
  moreover have "- (2 ^ 63) \<le> sint (m_secs a) + sint (m_secs b) + d"
    and "sint (m_secs a) + sint (m_secs b) + d < 2 ^ 63"
    using lo hi d0 d1 by simp_all
  ultimately have secs: "sint (m_secs (Time_plus a b)) = sint (m_secs a) + sint (m_secs b) + d"
    by (simp only: sint_word_of_int_64)
  have subns: "sint (m_subns (Time_plus a b)) = (A + B) mod S"
    unfolding Time_plus_secs(2)[OF a b] A_def B_def S_def ..
  have "total_subns (Time_plus a b) = (sint (m_secs a) + sint (m_secs b) + d) * S + (A + B) mod S"
    unfolding total_subns_def secs subns S_def ..
  also have "\<dots> = (sint (m_secs a) + sint (m_secs b)) * S + (d * S + (A + B) mod S)"
    by (simp add: algebra_simps)
  also have "d * S + (A + B) mod S = A + B" unfolding d_def by simp
  finally show ?thesis
    unfolding total_subns_def A_def B_def S_def by (simp add: algebra_simps)
qed

subsection \<open>The claims about canonical form and arithmetic\<close>

text \<open>
  Claim C1. Every \<^verbatim>\<open>Time\<close> value that the public constructors and the arithmetic
  operators (unary minus, \<open>+\<close>, \<open>-\<close>, \<open>+=\<close>, \<open>-=\<close>, scalar \<open>*\<close> and \<open>/\<close>) produce is
  canonical: its subns field lies in \<open>[0, SUBNS_PER_SEC)\<close>, where \<open>SUBNS_PER_SEC\<close> is
  \<open>65536 * 10 ^ 9\<close>; \<^verbatim>\<open>normalize\<close> leaves it as it is, so it is equal to its normal form
  under \<^verbatim>\<open>operator==\<close>; its seconds field is the total time in whole seconds rounded
  down and its subns field the non-negative remainder; so a negative total time has a
  seconds field \<open>\<le> 0\<close>.
\<close>

theorem produced_is_canonical:
  assumes "produced t"
  shows "0 \<le> sint (m_subns t) \<and> sint (m_subns t) < sint SUBNS_PER_SEC \<and>
         sint SUBNS_PER_SEC = 65536 * 10 ^ 9 \<and>
         normalize_time t = t \<and> Time_eq t (normalize_time t) \<and>
         sint (m_secs t) = total_subns t div sint SUBNS_PER_SEC \<and>
         sint (m_subns t) = total_subns t mod sint SUBNS_PER_SEC \<and>
         (total_subns t < 0 \<longrightarrow> sint (m_secs t) \<le> 0)"
proof -
  from assms have c: "canonical t" by (rule produced_canonical)
  then have "0 \<le> sint (m_subns t)" and "sint (m_subns t) < sint SUBNS_PER_SEC"
    by (simp_all add: canonical_def)
  moreover have "sint SUBNS_PER_SEC = 65536 * 10 ^ 9"
    by (simp add: sint_SUBNS_PER_SEC)
  moreover have "normalize_time t = t" using c by (rule normalize_id)
  moreover from this have "Time_eq t (normalize_time t)" by (simp add: Time_eq_def)
  moreover have "sint (m_secs t) = total_subns t div sint SUBNS_PER_SEC"
    and "sint (m_subns t) = total_subns t mod sint SUBNS_PER_SEC"
    using canonical_div_mod[OF c] by simp_all
  moreover have "total_subns t < 0 \<longrightarrow> sint (m_secs t) \<le> 0"
    using negative_total_secs[OF c] by auto
  ultimately show ?thesis by blast
qed

theorem produced_is_canonical_witness:
  "produced (Time_minus (Time_subns 5) (Time_subns 7)) \<and>
   Time_minus (Time_subns 5) (Time_subns 7) = \<lparr>m_secs = - 1, m_subns = 65535999999998\<rparr> \<and>
   normalize_time (Time_minus (Time_subns 5) (Time_subns 7)) = Time_minus (Time_subns 5) (Time_subns 7) \<and>
   total_subns (Time_minus (Time_subns 5) (Time_subns 7)) < 0 \<and>
   sint (m_secs (Time_minus (Time_subns 5) (Time_subns 7))) \<le> 0"
proof -
  have p: "produced (Time_minus (Time_subns 5) (Time_subns 7))"
    by (intro produced.by_minus produced.by_subns)
  have v: "Time_minus (Time_subns 5) (Time_subns 7) = \<lparr>m_secs = - 1, m_subns = 65535999999998\<rparr>"
    by (simp add: Time_minus_def Time_copy_def sub_assign_def normalize_time_def Time_subns_def
        divide_s64_def modulo_s64_def sint_SUBNS_PER_SEC)
  have n: "total_subns (Time_minus (Time_subns 5) (Time_subns 7)) < 0"
    unfolding v by (simp add: total_subns_def sint_SUBNS_PER_SEC)
  from produced_is_canonical [OF p] p v n show ?thesis by blast
qed

text \<open>
  Claim C3. For canonical values \<open>a\<close> and \<open>b\<close> (every value a program can hold is
  canonical), \<open>(a + b) - b\<close> is \<open>a\<close> again, field by field, so \<^verbatim>\<open>operator==\<close> holds. The
  seconds wrap around as 64-bit integers in both steps, and the wrap cancels.
\<close>

theorem plus_minus_roundtrip:
  assumes "canonical a" and "canonical b"
  shows "Time_eq (Time_minus (Time_plus a b) b) a"
  using plus_minus_cancel[OF assms] by (simp add: Time_eq_def)

theorem plus_minus_roundtrip_witness:
  "canonical (Time_subns (- 5)) \<and> canonical (Time_subns 7) \<and>
   Time_eq (Time_minus (Time_plus (Time_subns (- 5)) (Time_subns 7)) (Time_subns 7))
     (Time_subns (- 5))"
proof -
  have a: "canonical (Time_subns (- 5))" and b: "canonical (Time_subns 7)"
    by (simp_all add: canonical_def Time_subns_def modulo_s64_def sint_SUBNS_PER_SEC)
  from plus_minus_roundtrip [OF a b] a b show ?thesis by blast
qed

subsection \<open>The PTP field extractors\<close>

lemma uint_eq_sint:
  fixes w :: "64 word"
  assumes "0 \<le> sint w"
  shows "uint w = sint w"
proof -
  have "sint w < 2 ^ 63" using sint_lt[of w] by simp
  then have "sint w < 2 ^ 64" by simp
  with assms have "take_bit 64 (sint w) = sint w"
    by (simp add: take_bit_int_eq_self)
  then show ?thesis by (simp add: uint_sint)
qed

lemma subns_split:
  assumes "canonical t"
  shows "0 \<le> sint (m_subns t) div 65536" and "sint (m_subns t) div 65536 < 10 ^ 9"
    and "0 \<le> sint (m_subns t) mod 65536" and "sint (m_subns t) mod 65536 < 65536"
proof -
  from assms have r: "0 \<le> sint (m_subns t)" "sint (m_subns t) < 65536 * 10 ^ 9"
    by (simp_all add: canonical_def sint_SUBNS_PER_SEC)
  from r(1) show "0 \<le> sint (m_subns t) div 65536" by simp
  from r(2) have "sint (m_subns t) \<le> 65535999999999" by simp
  then have "sint (m_subns t) div 65536 \<le> 65535999999999 div 65536"
    by (intro zdiv_mono1) simp_all
  then show "sint (m_subns t) div 65536 < 10 ^ 9" by simp
  show "0 \<le> sint (m_subns t) mod 65536" and "sint (m_subns t) mod 65536 < 65536"
    by simp_all
qed

lemma uint_field_nsec:
  assumes "canonical t"
  shows "uint (field_nsec t) = sint (m_subns t) div 65536"
proof -
  let ?q = "sint (m_subns t) div 65536"
  have q: "0 \<le> ?q" "?q < 10 ^ 9" using subns_split[OF assms] by simp_all
  then have q64: "?q < 2 ^ 64" and q32: "?q < 2 ^ 32" by simp_all
  have "uint (word_of_int ?q :: 64 word) = ?q"
    using q(1) q64 by (simp add: uint_word_of_int)
  then have "uint (field_nsec t) = take_bit 32 ?q"
    by (simp add: field_nsec_def div_floor_def sint_SUBNS_PER_NSEC unsigned_ucast_eq)
  also have "\<dots> = ?q" using q(1) q32 by (simp add: take_bit_int_eq_self)
  finally show ?thesis .
qed

lemma uint_correction:
  assumes "canonical t"
  shows "uint (correction t) = sint (m_subns t) mod 65536"
proof -
  let ?r = "sint (m_subns t) mod 65536"
  have "0 \<le> ?r" "?r < 65536" by simp_all
  then have "0 \<le> ?r" "?r < 2 ^ 64" by simp_all
  then show ?thesis
    by (simp add: correction_def modulo_s64_def sint_SUBNS_PER_NSEC uint_word_of_int)
qed

lemma uint_field_subns:
  assumes "canonical t"
  shows "uint (field_subns t) = sint (m_subns t)"
  using assms by (simp add: field_subns_def canonical_def uint_eq_sint)

text \<open>
  Claim C8. For a canonical \<^verbatim>\<open>Time\<close> value the field extractors decompose the subns
  field: \<^verbatim>\<open>field_subns() == 65536 * field_nsec() + correction()\<close>, as 64-bit unsigned
  values and as integers, with \<^verbatim>\<open>field_nsec()\<close> below \<open>10 ^ 9\<close> and \<^verbatim>\<open>correction()\<close>
  below \<open>65536\<close>; and \<^verbatim>\<open>field_secs()\<close> is the seconds field. So the three fields
  determine the value.
\<close>

theorem field_decomposition:
  assumes "canonical t"
  shows "field_subns t = 65536 * ucast (field_nsec t) + correction t \<and>
         uint (field_subns t) = 65536 * uint (field_nsec t) + uint (correction t) \<and>
         uint (field_nsec t) < 10 ^ 9 \<and>
         uint (correction t) < 65536 \<and>
         t = \<lparr>m_secs = field_secs t,
              m_subns = 65536 * ucast (field_nsec t) + correction t\<rparr>"
proof -
  have n: "uint (field_nsec t) = sint (m_subns t) div 65536"
    using assms by (rule uint_field_nsec)
  have c: "uint (correction t) = sint (m_subns t) mod 65536"
    using assms by (rule uint_correction)
  have s: "uint (field_subns t) = sint (m_subns t)"
    using assms by (rule uint_field_subns)
  have int_eq: "uint (field_subns t) = 65536 * uint (field_nsec t) + uint (correction t)"
    unfolding n c s by simp
  have "word_of_int (uint (field_subns t)) =
      (word_of_int (65536 * uint (field_nsec t) + uint (correction t)) :: 64 word)"
    using int_eq by simp
  then have word_eq: "field_subns t = 65536 * ucast (field_nsec t) + correction t"
    by (simp add: word_of_int_uint)
  have "uint (field_nsec t) < 10 ^ 9" and "uint (correction t) < 65536"
    unfolding n c using subns_split[OF assms] by simp_all
  moreover have "t = \<lparr>m_secs = field_secs t,
      m_subns = 65536 * ucast (field_nsec t) + correction t\<rparr>"
    using word_eq by (simp add: field_secs_def field_subns_def)
  ultimately show ?thesis using int_eq word_eq by blast
qed

theorem field_decomposition_witness:
  "canonical (Time_fields 123456 789000000 32768) \<and>
   field_secs (Time_fields 123456 789000000 32768) = 123456 \<and>
   field_nsec (Time_fields 123456 789000000 32768) = 789000000 \<and>
   correction (Time_fields 123456 789000000 32768) = 32768 \<and>
   field_subns (Time_fields 123456 789000000 32768) =
     65536 * ucast (field_nsec (Time_fields 123456 789000000 32768))
       + correction (Time_fields 123456 789000000 32768)"
proof -
  have v: "Time_fields 123456 789000000 32768 =
      \<lparr>m_secs = 123456, m_subns = 51707904032768\<rparr>"
    by (simp add: Time_fields_def normalize_time_def divide_s64_def modulo_s64_def sint_SUBNS_PER_SEC
        SUBNS_PER_NSEC_def)
  have c: "canonical (Time_fields 123456 789000000 32768)"
    unfolding v by (simp add: canonical_def sint_SUBNS_PER_SEC)
  have "field_secs (Time_fields 123456 789000000 32768) = 123456"
    and "field_nsec (Time_fields 123456 789000000 32768) = 789000000"
    and "correction (Time_fields 123456 789000000 32768) = 32768"
    unfolding v
    by (simp_all add: field_secs_def field_nsec_def correction_def div_floor_def modulo_s64_def
        sint_SUBNS_PER_NSEC)
  with field_decomposition [OF c] c show ?thesis by blast
qed

subsection \<open>Saturating conversions\<close>

lemma sint_INT64_MAX: "sint INT64_MAX = 9223372036854775807"
  by (simp add: INT64_MAX_def)

lemma sint_INT64_MIN: "sint INT64_MIN = - 9223372036854775808"
  by (simp add: INT64_MIN_def)

lemma total_subns_ONE_DAY: "total_subns ONE_DAY = 5662310400000000000"
  by (simp add: ONE_DAY_def Time_subns_def total_subns_def divide_s64_def modulo_s64_def
      SUBNS_PER_SEC_def SUBNS_PER_NSEC_def NSEC_PER_SEC_def)

lemma sint_saturate_in_range:
  assumes "sint INT64_MIN \<le> v" and "v \<le> sint INT64_MAX"
  shows "sint (saturate v) = v"
proof -
  from assms have "- (2 ^ 63) \<le> v" and "v < 2 ^ 63"
    by (simp_all add: sint_INT64_MAX sint_INT64_MIN)
  then have "sint (word_of_int v :: 64 word) = v" by (rule sint_word_of_int_64)
  with assms show ?thesis by (simp add: saturate_def)
qed

lemma whole_units:
  fixes a u :: int
  assumes "0 < u"
  shows "a div u * u \<le> a" and "a < (a div u + 1) * u" and "u dvd a \<Longrightarrow> a div u * u = a"
proof -
  have eq: "a = a div u * u + a mod u" by simp
  have m: "0 \<le> a mod u" "a mod u < u" using assms by simp_all
  from eq m(1) show "a div u * u \<le> a" by linarith
  have "(a div u + 1) * u = a div u * u + u" by (simp add: algebra_simps)
  with eq m(2) show "a < (a div u + 1) * u" by linarith
  show "u dvd a \<Longrightarrow> a div u * u = a" by simp
qed

lemma div_between:
  fixes a u lo hi :: int
  assumes "1 \<le> u" and "lo \<le> a" and "a \<le> hi" and "lo \<le> 0" and "0 \<le> hi"
  shows "lo \<le> a div u \<and> a div u \<le> hi"
proof (cases "0 \<le> a")
  case True
  have "0 < u" using assms(1) by simp
  then have "0 \<le> a div u" using True by (simp add: pos_imp_zdiv_nonneg_iff)
  moreover have "a div u \<le> a div 1"
    using True assms(1) by (intro zdiv_mono2) simp_all
  ultimately show ?thesis using assms by simp
next
  case False
  then have neg: "a < 0" by simp
  have "0 < u" using assms(1) by simp
  with neg have "a div u < 0" by (rule div_neg_pos_less0)
  moreover have "a div 1 \<le> a div u"
    using neg assms(1) by (intro zdiv_mono2_neg) simp_all
  ultimately show ?thesis using assms by simp
qed

lemma saturating_conversion_div:
  assumes u: "1 \<le> u" and f: "f t = saturate (total_subns t div u)"
  shows "saturating_conversion f u t"
  unfolding saturating_conversion_def
proof (intro conjI impI)
  assume "in_safe_range u t"
  then have r: "sint (f t) = total_subns t div u"
    unfolding f in_safe_range_def by (intro sint_saturate_in_range) simp_all
  from u have pos: "0 < u" by simp
  show "sint (f t) * u \<le> total_subns t" and "total_subns t < (sint (f t) + 1) * u"
    unfolding r using whole_units(1,2)[OF pos] by simp_all
  show "sint (f t) * u = total_subns t" if "u dvd total_subns t"
    unfolding r using whole_units(3)[OF pos that] .
next
  assume "sint INT64_MAX < total_subns t div u"
  then show "f t = INT64_MAX" by (simp add: f saturate_def)
next
  assume "total_subns t div u < sint INT64_MIN"
  moreover have "sint INT64_MIN < sint INT64_MAX"
    by (simp add: sint_INT64_MAX sint_INT64_MIN)
  ultimately show "f t = INT64_MIN" by (simp add: f saturate_def)
next
  assume "\<bar>total_subns t\<bar> \<le> total_subns ONE_DAY"
  then have "sint INT64_MIN \<le> total_subns t" and "total_subns t \<le> sint INT64_MAX"
    by (simp_all add: total_subns_ONE_DAY sint_INT64_MAX sint_INT64_MIN)
  then show "in_safe_range u t"
    unfolding in_safe_range_def
    using div_between[OF u, of "sint INT64_MIN" "total_subns t" "sint INT64_MAX"]
    by (simp add: sint_INT64_MAX sint_INT64_MIN)
qed

text \<open>
  Claim C5. Each of \<^verbatim>\<open>delta_subns\<close>, \<^verbatim>\<open>delta_nsec\<close>, \<^verbatim>\<open>delta_usec\<close> and \<^verbatim>\<open>delta_msec\<close> is
  a saturating conversion to its unit (1, 65536, 65536000 and 65536000000
  subnanoseconds): in the safe range of the unit, which holds every value of at most
  24 hours in either direction, the result is the number of whole units, exact when
  the value is a multiple of the unit; beyond the safe range the result is
  \<^verbatim>\<open>INT64_MAX\<close> for a positive and \<^verbatim>\<open>INT64_MIN\<close> for a negative value.
\<close>

theorem delta_saturating_conversion:
  "saturating_conversion delta_subns 1 t \<and>
   saturating_conversion delta_nsec 65536 t \<and>
   saturating_conversion delta_usec 65536000 t \<and>
   saturating_conversion delta_msec 65536000000 t"
proof (intro conjI)
  show "saturating_conversion delta_subns 1 t"
    by (rule saturating_conversion_div) (simp_all add: delta_subns_def)
  show "saturating_conversion delta_nsec 65536 t"
    by (rule saturating_conversion_div) (simp_all add: delta_nsec_def SUBNS_PER_NSEC_def)
  show "saturating_conversion delta_usec 65536000 t"
    by (rule saturating_conversion_div)
      (simp_all add: delta_usec_def SUBNS_PER_USEC_def SUBNS_PER_NSEC_def NSEC_PER_USEC_def)
  show "saturating_conversion delta_msec 65536000000 t"
    by (rule saturating_conversion_div)
      (simp_all add: delta_msec_def SUBNS_PER_MSEC_def SUBNS_PER_NSEC_def NSEC_PER_MSEC_def)
qed

lemma total_subns_example_small: "total_subns (Time_subns 131073) = 131073"
  by (simp add: Time_subns_def total_subns_def divide_s64_def modulo_s64_def sint_SUBNS_PER_SEC)

lemma total_subns_example_large:
  "total_subns (Time_fields 1000000000 0 0) = 65536000000000000000000"
  by (simp add: Time_fields_def normalize_time_def total_subns_def divide_s64_def modulo_s64_def
      sint_SUBNS_PER_SEC)

lemma total_subns_example_negative:
  "total_subns (Time_neg (Time_fields 1000000000 0 0)) = - 65536000000000000000000"
  by (simp add: Time_neg_def Time_fields_def normalize_time_def total_subns_def divide_s64_def
      modulo_s64_def sint_SUBNS_PER_SEC)

theorem delta_saturating_conversion_witness:
  "\<bar>total_subns (Time_subns 131073)\<bar> \<le> total_subns ONE_DAY \<and>
   in_safe_range 65536 (Time_subns 131073) \<and>
   sint (delta_nsec (Time_subns 131073)) * 65536 \<le> total_subns (Time_subns 131073) \<and>
   total_subns (Time_subns 131073) < (sint (delta_nsec (Time_subns 131073)) + 1) * 65536 \<and>
   sint INT64_MAX < total_subns (Time_fields 1000000000 0 0) div 1 \<and>
   delta_subns (Time_fields 1000000000 0 0) = INT64_MAX \<and>
   total_subns (Time_neg (Time_fields 1000000000 0 0)) div 1 < sint INT64_MIN \<and>
   delta_subns (Time_neg (Time_fields 1000000000 0 0)) = INT64_MIN"
proof -
  have day: "\<bar>total_subns (Time_subns 131073)\<bar> \<le> total_subns ONE_DAY"
    by (simp add: total_subns_example_small total_subns_ONE_DAY)
  have above: "sint INT64_MAX < total_subns (Time_fields 1000000000 0 0) div 1"
    by (simp add: total_subns_example_large sint_INT64_MAX)
  have below: "total_subns (Time_neg (Time_fields 1000000000 0 0)) div 1 < sint INT64_MIN"
    by (simp add: total_subns_example_negative sint_INT64_MIN)
  have "saturating_conversion delta_nsec 65536 (Time_subns 131073)"
    using delta_saturating_conversion [of "Time_subns 131073"] by blast
  with day have safe: "in_safe_range 65536 (Time_subns 131073)"
    and "sint (delta_nsec (Time_subns 131073)) * 65536 \<le> total_subns (Time_subns 131073)"
    and "total_subns (Time_subns 131073) < (sint (delta_nsec (Time_subns 131073)) + 1) * 65536"
    unfolding saturating_conversion_def by blast+
  moreover have "delta_subns (Time_fields 1000000000 0 0) = INT64_MAX"
    using delta_saturating_conversion [of "Time_fields 1000000000 0 0"] above
    unfolding saturating_conversion_def by blast
  moreover have "delta_subns (Time_neg (Time_fields 1000000000 0 0)) = INT64_MIN"
    using delta_saturating_conversion [of "Time_neg (Time_fields 1000000000 0 0)"] below
    unfolding saturating_conversion_def by blast
  ultimately show ?thesis using day above below by blast
qed

section \<open>Properties of the PTP measurement\<close>

lemma Time_subns_small:
  "Time_subns 5 = \<lparr>m_secs = 0, m_subns = 5\<rparr>"
  "Time_subns 10 = \<lparr>m_secs = 0, m_subns = 10\<rparr>"
  "Time_subns 15 = \<lparr>m_secs = 0, m_subns = 15\<rparr>"
  "Time_subns 100 = \<lparr>m_secs = 0, m_subns = 100\<rparr>"
  "Time_subns 105 = \<lparr>m_secs = 0, m_subns = 105\<rparr>"
  "Time_subns 200 = \<lparr>m_secs = 0, m_subns = 200\<rparr>"
  "Time_subns 205 = \<lparr>m_secs = 0, m_subns = 205\<rparr>"
  "Time_subns 215 = \<lparr>m_secs = 0, m_subns = 215\<rparr>"
  "Time_subns 0 = \<lparr>m_secs = 0, m_subns = 0\<rparr>"
  "Time_subns (- 5) = \<lparr>m_secs = - 1, m_subns = 65535999999995\<rparr>"
  by (simp_all add: Time_subns_def divide_s64_def modulo_s64_def sint_SUBNS_PER_SEC)

lemmas Time_arith_defs =
  Time_plus_def Time_minus_def Time_divide_def Time_copy_def add_assign_def sub_assign_def
  div_assign_def normalize_time_def divide_s64_def modulo_s64_def sint_SUBNS_PER_SEC Let_def

lemma example_differences:
  "Time_minus (Time_subns 105) (Time_subns 100) = \<lparr>m_secs = 0, m_subns = 5\<rparr>"
  "Time_minus (Time_subns 215) (Time_subns 200) = \<lparr>m_secs = 0, m_subns = 15\<rparr>"
  "Time_minus (Time_subns 205) (Time_subns 200) = \<lparr>m_secs = 0, m_subns = 5\<rparr>"
  by (simp_all add: Time_subns_small Time_arith_defs)

lemma example_delay:
  "mean_path_delay \<lparr>t1 = Time_subns 100, t2 = Time_subns 105,
                    t3 = Time_subns 200, t4 = Time_subns 215\<rparr> = Inr (Time_subns 10)"
  unfolding mean_path_delay_def Measurement.simps example_differences Time_subns_small
  by (simp add: Time_arith_defs)

lemma example_offset:
  "offset_from_master \<lparr>t1 = Time_subns 100, t2 = Time_subns 105,
                       t3 = Time_subns 200, t4 = Time_subns 215\<rparr> = Inr (Time_subns (- 5))"
  unfolding offset_from_master_def Measurement.simps example_differences Time_subns_small
  by (simp add: Time_arith_defs)

lemma symmetric_delay:
  "mean_path_delay \<lparr>t1 = Time_subns 100, t2 = Time_subns 105,
                    t3 = Time_subns 200, t4 = Time_subns 205\<rparr> = Inr (Time_subns 5)"
  unfolding mean_path_delay_def Measurement.simps example_differences Time_subns_small
  by (simp add: Time_arith_defs)

lemma symmetric_offset:
  "offset_from_master \<lparr>t1 = Time_subns 100, t2 = Time_subns 105,
                       t3 = Time_subns 200, t4 = Time_subns 205\<rparr> = Inr (Time_subns 0)"
  unfolding offset_from_master_def Measurement.simps example_differences Time_subns_small
  by (simp add: Time_arith_defs)

text \<open>
  Claim C2, as the spec states it: with the formulas of the spec the timestamps
  \<open>t1 = 100\<close>, \<open>t2 = 105\<close>, \<open>t3 = 200\<close>, \<open>t4 = 215\<close> give a mean path delay of 5 and an
  offset from the master of 0. The timestamps are \<^verbatim>\<open>Time(100)\<close> and so on, in
  subnanoseconds. The formulas give other values, so this fails.
\<close>

theorem measurement_example_counterexample:
  "\<not> (mean_path_delay \<lparr>t1 = Time_subns 100, t2 = Time_subns 105,
                        t3 = Time_subns 200, t4 = Time_subns 215\<rparr> = Inr (Time_subns 5) \<and>
      offset_from_master \<lparr>t1 = Time_subns 100, t2 = Time_subns 105,
                          t3 = Time_subns 200, t4 = Time_subns 215\<rparr> = Inr (Time_subns 0))"
  unfolding example_delay by (simp add: Time_subns_small)

text \<open>
  Claim C2, amended: with the formulas of the spec the timestamps \<open>t1 = 100\<close>,
  \<open>t2 = 105\<close>, \<open>t3 = 200\<close>, \<open>t4 = 215\<close> give a mean path delay of 10 and an offset from
  the master of \<open>-5\<close>. A delay of 5 and an offset of 0 are the values for \<open>t4 = 205\<close>,
  the symmetric link with a delay of 5 in both directions.
\<close>

theorem measurement_example:
  "mean_path_delay \<lparr>t1 = Time_subns 100, t2 = Time_subns 105,
                    t3 = Time_subns 200, t4 = Time_subns 215\<rparr> = Inr (Time_subns 10) \<and>
   offset_from_master \<lparr>t1 = Time_subns 100, t2 = Time_subns 105,
                       t3 = Time_subns 200, t4 = Time_subns 215\<rparr> = Inr (Time_subns (- 5)) \<and>
   mean_path_delay \<lparr>t1 = Time_subns 100, t2 = Time_subns 105,
                    t3 = Time_subns 200, t4 = Time_subns 205\<rparr> = Inr (Time_subns 5) \<and>
   offset_from_master \<lparr>t1 = Time_subns 100, t2 = Time_subns 105,
                       t3 = Time_subns 200, t4 = Time_subns 205\<rparr> = Inr (Time_subns 0)"
  using example_delay example_offset symmetric_delay symmetric_offset by blast

section \<open>Properties of the simulated clock\<close>

text \<open>
  Claim C10. For every state of the simulated clock and every amount \<open>a\<close>,
  \<^verbatim>\<open>clock_adjust(a)\<close> returns \<^verbatim>\<open>Time(0)\<close>, the zero time; afterwards \<^verbatim>\<open>clock_now()\<close>
  returns the sum (\<^verbatim>\<open>operator+\<close>) of its previous value and \<open>a\<close>; the fine-rate offset
  \<^verbatim>\<open>m_offset\<close>, which \<^verbatim>\<open>clock_rate\<close> sets, is as before, and so is every member but the
  clock value and the count of coarse adjustments. Where the clock value and \<open>a\<close> are
  canonical and the sum of their seconds stays in the range of a signed 64-bit integer,
  the time of the clock has grown by the time of \<open>a\<close>.
\<close>

theorem clock_adjust_full_step:
  "fst (clock_adjust c a) = Time_subns 0 \<and>
   fst (clock_adjust c a) = \<lparr>m_secs = 0, m_subns = 0\<rparr> \<and>
   total_subns (fst (clock_adjust c a)) = 0 \<and>
   clock_now (snd (clock_adjust c a)) = Time_plus (clock_now c) a \<and>
   m_offset (snd (clock_adjust c a)) = m_offset c \<and>
   snd (clock_adjust c a) =
     c\<lparr>m_count_coarse := m_count_coarse c + 1, m_rtc := Time_plus (m_rtc c) a\<rparr> \<and>
   (canonical (clock_now c) \<and> canonical a \<and>
    - (2 ^ 63) \<le> sint (m_secs (clock_now c)) + sint (m_secs a) \<and>
    sint (m_secs (clock_now c)) + sint (m_secs a) + 1 < 2 ^ 63 \<longrightarrow>
      total_subns (clock_now (snd (clock_adjust c a))) = total_subns (clock_now c) + total_subns a)"
proof -
  have z: "Time_subns 0 = \<lparr>m_secs = 0, m_subns = 0\<rparr>"
    by (simp add: Time_subns_def divide_s64_def modulo_s64_def)
  have "Time_copy (m_rtc c) = m_rtc c"
    by (cases "m_rtc c") (simp add: Time_copy_def)
  then have p: "Time_plus (m_rtc c) a = add_assign (m_rtc c) a"
    by (simp add: Time_plus_def)
  have now: "clock_now (snd (clock_adjust c a)) = Time_plus (clock_now c) a"
    by (simp add: clock_adjust_def clock_now_def p)
  have "total_subns (clock_now (snd (clock_adjust c a))) = total_subns (clock_now c) + total_subns a"
    if "canonical (clock_now c)" and "canonical a"
      and "- (2 ^ 63) \<le> sint (m_secs (clock_now c)) + sint (m_secs a)"
      and "sint (m_secs (clock_now c)) + sint (m_secs a) + 1 < 2 ^ 63"
    unfolding now using that by (rule total_subns_plus)
  moreover have "fst (clock_adjust c a) = Time_subns 0"
    and "fst (clock_adjust c a) = \<lparr>m_secs = 0, m_subns = 0\<rparr>"
    and "total_subns (fst (clock_adjust c a)) = 0"
    and "m_offset (snd (clock_adjust c a)) = m_offset c"
    and "snd (clock_adjust c a) =
      c\<lparr>m_count_coarse := m_count_coarse c + 1, m_rtc := Time_plus (m_rtc c) a\<rparr>"
    by (simp_all add: clock_adjust_def z total_subns_def p)
  ultimately show ?thesis using now by blast
qed

theorem clock_adjust_full_step_witness:
  "canonical (clock_now example_clock) \<and> canonical (Time_subns (- 5)) \<and>
   - (2 ^ 63) \<le> sint (m_secs (clock_now example_clock)) + sint (m_secs (Time_subns (- 5))) \<and>
   sint (m_secs (clock_now example_clock)) + sint (m_secs (Time_subns (- 5))) + 1 < 2 ^ 63 \<and>
   total_subns (clock_now example_clock) = 100 \<and>
   total_subns (clock_now (snd (clock_adjust example_clock (Time_subns (- 5))))) = 95 \<and>
   fst (clock_adjust example_clock (Time_subns (- 5))) = \<lparr>m_secs = 0, m_subns = 0\<rparr> \<and>
   m_offset (snd (clock_adjust example_clock (Time_subns (- 5)))) = 7"
proof -
  have n: "clock_now example_clock = \<lparr>m_secs = 0, m_subns = 100\<rparr>"
    by (simp add: clock_now_def example_clock_def Time_subns_def divide_s64_def modulo_s64_def
        sint_SUBNS_PER_SEC)
  have a: "Time_subns (- 5) = \<lparr>m_secs = - 1, m_subns = 65535999999995\<rparr>"
    by (simp add: Time_subns_def divide_s64_def modulo_s64_def sint_SUBNS_PER_SEC)
  have h: "canonical (clock_now example_clock)" "canonical (Time_subns (- 5))"
    "- (2 ^ 63) \<le> sint (m_secs (clock_now example_clock)) + sint (m_secs (Time_subns (- 5)))"
    "sint (m_secs (clock_now example_clock)) + sint (m_secs (Time_subns (- 5))) + 1 < 2 ^ 63"
    unfolding n a by (simp_all add: canonical_def sint_SUBNS_PER_SEC)
  have t: "total_subns (clock_now example_clock) = 100" "total_subns (Time_subns (- 5)) = - 5"
    unfolding n a by (simp_all add: total_subns_def sint_SUBNS_PER_SEC)
  have o: "m_offset example_clock = 7" by (simp add: example_clock_def)
  from clock_adjust_full_step [of example_clock "Time_subns (- 5)"] h
  have "total_subns (clock_now (snd (clock_adjust example_clock (Time_subns (- 5))))) =
      total_subns (clock_now example_clock) + total_subns (Time_subns (- 5))"
    and "fst (clock_adjust example_clock (Time_subns (- 5))) = \<lparr>m_secs = 0, m_subns = 0\<rparr>"
    and "m_offset (snd (clock_adjust example_clock (Time_subns (- 5)))) = m_offset example_clock"
    by blast+
  with h t o show ?thesis by simp
qed

end
